theory Spec2Isabelle
  imports Complex_Main "HOL-Library.AList" "HOL-Library.Log_Nat"
begin

section \<open>Load values\<close>

text \<open>
  Loads are Python floats, that is IEEE 754 binary64 values. The calculator of the
  repository (module \<^verbatim>\<open>llumnix.instance_info\<close>) is not among the sources; the
  specification gives the loads a total order with the sentinel \<open>-inf\<close>, so \<open>nan\<close>
  is not a load. A finite load is carried as the real number it denotes, the two
  infinities are their own constructors, and the two zeros, which compare equal, are
  one value. The only arithmetic of the schedulers on loads is the subtraction in
  \<^verbatim>\<open>Balanced.check_migrate\<close>; it rounds, as Python does. Only a difference can be
  undefined (\<open>inf - inf\<close>, which is \<open>nan\<close> in Python); it is the value \<open>None\<close>
  of \<open>load_sub\<close>, and every comparison with it is false, as for \<open>nan\<close>.
\<close>

datatype load = NegInf | Fin real | PosInf

fun load_le :: "load \<Rightarrow> load \<Rightarrow> bool" where
  "load_le NegInf y = True"
| "load_le (Fin a) NegInf = False"
| "load_le (Fin a) (Fin b) = (a \<le> b)"
| "load_le (Fin a) PosInf = True"
| "load_le PosInf PosInf = True"
| "load_le PosInf y = False"

instantiation load :: linorder
begin

definition less_eq_load :: "load \<Rightarrow> load \<Rightarrow> bool" where
  "less_eq_load x y = load_le x y"

definition less_load :: "load \<Rightarrow> load \<Rightarrow> bool" where
  "less_load x y = (load_le x y \<and> \<not> load_le y x)"

instance
proof
  fix x y z :: load
  show "(x < y) = (x \<le> y \<and> \<not> y \<le> x)"
    by (simp add: less_load_def less_eq_load_def)
  show "x \<le> x"
    by (cases x) (simp_all add: less_eq_load_def)
  show "x \<le> y \<Longrightarrow> y \<le> z \<Longrightarrow> x \<le> z"
    by (cases x; cases y; cases z) (simp_all add: less_eq_load_def)
  show "x \<le> y \<Longrightarrow> y \<le> x \<Longrightarrow> x = y"
    by (cases x; cases y) (simp_all add: less_eq_load_def)
  show "x \<le> y \<or> y \<le> x"
    by (cases x; cases y) (auto simp add: less_eq_load_def)
qed

end

text \<open>
  Rounding of a real number to binary64, to the nearest value with ties to even. The
  values between \<open>2^e\<close> and \<open>2^(e+1)\<close> are the multiples of \<open>2^(e-52)\<close>
  (53 bits of precision); below \<open>2^-1022\<close> the spacing stays \<open>2^-1074\<close> (the
  subnormal numbers). \<open>float_exponent x\<close> is the exponent \<open>e\<close> for \<open>x\<close>, read
  off the bit length of \<open>\<bar>x\<bar> * 2^1074\<close>; \<open>nearest x\<close> is the multiple of the
  spacing next to \<open>x\<close>; a result of magnitude \<open>2^1024\<close> overflows to an infinity.
\<close>

definition float_exponent :: "real \<Rightarrow> int" where
  "float_exponent x = max (- 1022) (bitlen \<lfloor>\<bar>x\<bar> * 2 ^ 1074\<rfloor> - 1075)"

definition float_ulp :: "real \<Rightarrow> real" where
  "float_ulp x = 2 powi (float_exponent x - 52)"

definition round_half_even :: "real \<Rightarrow> int" where
  "round_half_even q =
     (let f = \<lfloor>q\<rfloor>; r = q - of_int f
      in if r < 1 / 2 then f else if 1 / 2 < r then f + 1 else if even f then f else f + 1)"

definition nearest :: "real \<Rightarrow> real" where
  "nearest x = of_int (round_half_even (x / float_ulp x)) * float_ulp x"

definition float_round :: "real \<Rightarrow> load" where
  "float_round x =
     (let y = nearest x
      in if 2 ^ 1024 \<le> y then PosInf else if y \<le> - (2 ^ 1024) then NegInf else Fin y)"

text \<open>Float subtraction \<^verbatim>\<open>a - b\<close>: the exact difference, rounded; \<open>None\<close> is
  \<open>nan\<close>.\<close>

fun load_sub :: "load \<Rightarrow> load \<Rightarrow> load option" where
  "load_sub (Fin a) (Fin b) = Some (float_round (a - b))"
| "load_sub (Fin a) NegInf = Some PosInf"
| "load_sub (Fin a) PosInf = Some NegInf"
| "load_sub NegInf NegInf = None"
| "load_sub NegInf y = Some NegInf"
| "load_sub PosInf PosInf = None"
| "load_sub PosInf y = Some PosInf"

text \<open>The chained comparison \<^verbatim>\<open>0 < a < b\<close> of two differences.\<close>

fun chained_less :: "load option \<Rightarrow> load option \<Rightarrow> bool" where
  "chained_less (Some a) (Some b) = (Fin 0 < a \<and> a < b)"
| "chained_less a b = False"

section \<open>InstanceInfo objects and the object store\<close>

text \<open>
  The class \<^verbatim>\<open>InstanceInfo\<close> is not among the sources either; its attributes are
  those the schedulers read and write, with the counters the specification lists.
\<close>

record instance_info =
  instance_id :: string
  num_running_request :: int
  num_waiting_request :: int
  num_killed_request :: int
  num_total_gpu_block :: int
  num_free_gpu_block :: int
  num_used_gpu_block :: int
  num_block_first_waiting_request :: int
  num_block_last_running_request :: int
  num_batched_tokens :: int
  instance_load_dispatch_scale :: load
  instance_load_migrate :: load

text \<open>
  InstanceInfo objects are mutable and shared by reference: the registry, the sorted
  list and the two filtered lists of a policy all hold the same objects. The store
  keeps every object at an address; a new object takes the next address.
\<close>

type_synonym addr = nat
type_synonym heap = "instance_info list"

definition alloc :: "heap \<Rightarrow> instance_info \<Rightarrow> addr \<times> heap" where
  "alloc h v = (length h, h @ [v])"

text \<open>\<^verbatim>\<open>copy.deepcopy\<close> of an InstanceInfo (all attributes are scalars): a new object
  with the same attribute values.\<close>

definition deepcopy :: "heap \<Rightarrow> addr \<Rightarrow> addr \<times> heap" where
  "deepcopy h a = alloc h (h ! a)"

section \<open>InstanceLoadCalculator\<close>

datatype action = Dispatch | Migrate

text \<open>
  Modelled from the spec: the class \<^verbatim>\<open>InstanceLoadCalculator\<close> is missing from the
  sources. It is pure and stateless, carries the flag \<open>enable_prefill_migrate\<close> that
  \<^verbatim>\<open>MigrationScheduler.__init__\<close> reads, and maps an InstanceInfo and an action to
  a load. The formula is a parameter.
\<close>

record instance_load_calculator =
  ilc_enable_prefill_migrate :: bool
  compute_instance_load :: "instance_info \<Rightarrow> action \<Rightarrow> load"

section \<open>Errors\<close>

datatype error = KeyError | AttributeError | CollaboratorError

section \<open>Migration policies\<close>

datatype policy_class = Balanced | PrefillConstrained | PrefillRelaxed

record check_migrate_policy =
  cmp_class :: policy_class
  cmp_migrate_out_load_threshold :: load
  cmp_instance_load_calculator :: instance_load_calculator

definition POLICY_REGISTRY :: "(string \<times> policy_class) list" where
  "POLICY_REGISTRY =
     [(''balanced'', Balanced),
      (''prefill_constrained'', PrefillConstrained),
      (''prefill_relaxed'', PrefillRelaxed)]"

text \<open>\<^verbatim>\<open>CheckMigratePolicyFactory.get_policy\<close>: a dictionary lookup, which raises
  \<^verbatim>\<open>KeyError\<close> on a name that is not a key, then the constructor.\<close>

definition get_policy ::
  "string \<Rightarrow> load \<Rightarrow> instance_load_calculator \<Rightarrow> error + check_migrate_policy" where
  "get_policy policy_name migrate_out_load_threshold instance_load_calculator =
     (case map_of POLICY_REGISTRY policy_name of
        None \<Rightarrow> Inl KeyError
      | Some cls \<Rightarrow>
          Inr \<lparr> cmp_class = cls,
                cmp_migrate_out_load_threshold = migrate_out_load_threshold,
                cmp_instance_load_calculator = instance_load_calculator \<rparr>)"

text \<open>The filters of the migrate-in and the migrate-out instances.\<close>

definition is_migrate_in :: "check_migrate_policy \<Rightarrow> heap \<Rightarrow> addr \<Rightarrow> bool" where
  "is_migrate_in pol h i =
     (num_killed_request (h ! i) = 0 \<and>
      instance_load_migrate (h ! i) < cmp_migrate_out_load_threshold pol)"

definition is_migrate_out :: "check_migrate_policy \<Rightarrow> heap \<Rightarrow> addr \<Rightarrow> bool" where
  "is_migrate_out pol h i =
     (num_killed_request (h ! i) > 0 \<or>
      instance_load_migrate (h ! i) > cmp_migrate_out_load_threshold pol)"

text \<open>
  \<^verbatim>\<open>Balanced._compute_instance_load_after_migrate\<close>: the argument is copied, the copy
  is changed in place, and the calculator reads the copy.
\<close>

definition compute_instance_load_after_migrate ::
  "check_migrate_policy \<Rightarrow> heap \<Rightarrow> addr \<Rightarrow> bool \<Rightarrow> load \<times> heap" where
  "compute_instance_load_after_migrate pol h info migrate_in =
     (let (after, h0) = deepcopy h info;
          n_block = num_block_last_running_request (h0 ! after);
          h2 = (if migrate_in then
                  (let h1 = h0[after := (h0 ! after)
                               \<lparr> num_running_request := num_running_request (h0 ! after) + 1 \<rparr>]
                   in h1[after := (h1 ! after)
                               \<lparr> num_free_gpu_block := num_free_gpu_block (h1 ! after) - n_block \<rparr>])
                else
                  (let h1 = h0[after := (h0 ! after)
                               \<lparr> num_running_request := num_running_request (h0 ! after) - 1 \<rparr>]
                   in h1[after := (h1 ! after)
                               \<lparr> num_free_gpu_block := num_free_gpu_block (h1 ! after) + n_block \<rparr>]))
      in (compute_instance_load (cmp_instance_load_calculator pol) (h2 ! after) Migrate, h2))"

text \<open>
  The loop of \<^verbatim>\<open>Balanced.check_migrate\<close> over
  \<^verbatim>\<open>range(min(len(left), len(right)))\<close>; the pairs are appended, the store is
  threaded through the two projections of each round.
\<close>

fun Balanced_loop ::
  "check_migrate_policy \<Rightarrow> addr list \<Rightarrow> addr list \<Rightarrow> nat list \<Rightarrow>
   (string \<times> string) list \<times> heap \<Rightarrow> (string \<times> string) list \<times> heap" where
  "Balanced_loop pol left right [] (migrate_instance_pairs, h) = (migrate_instance_pairs, h)"
| "Balanced_loop pol left right (i # rest) (migrate_instance_pairs, h) =
     (let load_diff_before_mig =
            load_sub (instance_load_migrate (h ! (right ! i)))
                     (instance_load_migrate (h ! (left ! i)));
          (left_load_after_mig, h1) = compute_instance_load_after_migrate pol h (left ! i) True;
          (right_load_after_mig, h2) = compute_instance_load_after_migrate pol h1 (right ! i) False
      in if left_load_after_mig > cmp_migrate_out_load_threshold pol
         then Balanced_loop pol left right rest (migrate_instance_pairs, h2)
         else
           (let load_diff_after_mig = load_sub right_load_after_mig left_load_after_mig
            in if chained_less load_diff_after_mig load_diff_before_mig
                  \<or> instance_load_migrate (h2 ! (left ! i)) = NegInf
               then Balanced_loop pol left right rest
                      (migrate_instance_pairs @
                         [(instance_id (h2 ! (right ! i)), instance_id (h2 ! (left ! i)))], h2)
               else Balanced_loop pol left right rest (migrate_instance_pairs, h2)))"

text \<open>The loop of the two prefill policies: every position gives a pair.\<close>

definition emit_all :: "heap \<Rightarrow> addr list \<Rightarrow> addr list \<Rightarrow> (string \<times> string) list" where
  "emit_all h left right =
     foldl (\<lambda>migrate_instance_pairs i.
              migrate_instance_pairs @
                [(instance_id (h ! (right ! i)), instance_id (h ! (left ! i)))])
           [] [0 ..< min (length left) (length right)]"

definition Balanced_check_migrate ::
  "check_migrate_policy \<Rightarrow> heap \<Rightarrow> addr list \<Rightarrow> (string \<times> string) list \<times> heap" where
  "Balanced_check_migrate pol h sorted_instance_infos =
     (let left_instance_infos = filter (is_migrate_in pol h) sorted_instance_infos;
          right_instance_infos = filter (is_migrate_out pol h) (rev sorted_instance_infos)
      in Balanced_loop pol left_instance_infos right_instance_infos
           [0 ..< min (length left_instance_infos) (length right_instance_infos)] ([], h))"

definition PrefillConstrained_check_migrate ::
  "check_migrate_policy \<Rightarrow> heap \<Rightarrow> addr list \<Rightarrow> (string \<times> string) list \<times> heap" where
  "PrefillConstrained_check_migrate pol h sorted_instance_infos =
     (let left_instance_infos = filter (is_migrate_in pol h) sorted_instance_infos;
          right_instance_infos = filter (is_migrate_out pol h) (rev sorted_instance_infos)
      in (emit_all h left_instance_infos right_instance_infos, h))"

definition PrefillRelaxed_check_migrate ::
  "check_migrate_policy \<Rightarrow> heap \<Rightarrow> addr list \<Rightarrow> (string \<times> string) list \<times> heap" where
  "PrefillRelaxed_check_migrate pol h sorted_instance_infos =
     (let left_instance_infos = filter (is_migrate_in pol h) sorted_instance_infos;
          right_instance_infos = rev sorted_instance_infos
      in (emit_all h left_instance_infos right_instance_infos, h))"

text \<open>The method call on the policy object goes to the method of its class.\<close>

definition policy_check_migrate ::
  "check_migrate_policy \<Rightarrow> heap \<Rightarrow> addr list \<Rightarrow> (string \<times> string) list \<times> heap" where
  "policy_check_migrate pol h sorted_instance_infos =
     (case cmp_class pol of
        Balanced \<Rightarrow> Balanced_check_migrate pol h sorted_instance_infos
      | PrefillConstrained \<Rightarrow> PrefillConstrained_check_migrate pol h sorted_instance_infos
      | PrefillRelaxed \<Rightarrow> PrefillRelaxed_check_migrate pol h sorted_instance_infos)"

section \<open>MigrationScheduler\<close>

text \<open>
  The registry of the GlobalScheduler is one dictionary object, created by its
  constructor, changed in place and never rebound. A sub-scheduler does not copy it:
  \<^verbatim>\<open>update_instance_infos\<close> stores a reference, and a read through the reference
  sees the registry as it is at the time of the read. A dictionary is an association
  list in insertion order with distinct keys.
\<close>

datatype dict_ref = RegistryRef

type_synonym registry = "(string \<times> addr) list"

record migration_scheduler =
  ms_migrate_out_load_threshold :: load
  ms_instance_load_calculator :: instance_load_calculator
  ms_enable_prefill_migrate :: bool
  ms_check_migrate_policy :: check_migrate_policy
  ms_num_instance :: nat
  ms_instance_id_set :: "string set"
  ms_instance_info :: "dict_ref option"
  ms_sorted_instance_infos :: "addr list option"

definition MigrationScheduler_init ::
  "string \<Rightarrow> load \<Rightarrow> instance_load_calculator \<Rightarrow> error + migration_scheduler" where
  "MigrationScheduler_init check_migrate_policy migrate_out_load_threshold instance_load_calculator =
     (let enable_prefill_migrate = ilc_enable_prefill_migrate instance_load_calculator
      in case (if \<not> enable_prefill_migrate
               then get_policy ''balanced'' migrate_out_load_threshold instance_load_calculator
               else get_policy check_migrate_policy migrate_out_load_threshold
                      instance_load_calculator) of
           Inl e \<Rightarrow> Inl e
         | Inr pol \<Rightarrow>
             Inr \<lparr> ms_migrate_out_load_threshold = migrate_out_load_threshold,
                   ms_instance_load_calculator = instance_load_calculator,
                   ms_enable_prefill_migrate = enable_prefill_migrate,
                   ms_check_migrate_policy = pol,
                   ms_num_instance = 0,
                   ms_instance_id_set = {},
                   ms_instance_info = None,
                   ms_sorted_instance_infos = None \<rparr>)"

definition ms_update_instance_infos :: "migration_scheduler \<Rightarrow> dict_ref \<Rightarrow> migration_scheduler" where
  "ms_update_instance_infos ms instance_info = ms \<lparr> ms_instance_info := Some instance_info \<rparr>"

definition ms_add_instance :: "migration_scheduler \<Rightarrow> string \<Rightarrow> migration_scheduler" where
  "ms_add_instance ms ins_id =
     (let ms1 = ms \<lparr> ms_instance_id_set := insert ins_id (ms_instance_id_set ms) \<rparr>
      in ms1 \<lparr> ms_num_instance := card (ms_instance_id_set ms1) \<rparr>)"

text \<open>\<^verbatim>\<open>set.remove\<close> raises \<^verbatim>\<open>KeyError\<close> on an element that is not in the set.\<close>

definition ms_remove_instance ::
  "migration_scheduler \<Rightarrow> string \<Rightarrow> error option \<times> migration_scheduler" where
  "ms_remove_instance ms ins_id =
     (if ins_id \<in> ms_instance_id_set ms
      then (let ms1 = ms \<lparr> ms_instance_id_set := ms_instance_id_set ms - {ins_id} \<rparr>
            in (None, ms1 \<lparr> ms_num_instance := card (ms_instance_id_set ms1) \<rparr>))
      else (Some KeyError, ms))"

text \<open>
  Python's \<^verbatim>\<open>sorted\<close> is stable; with \<^verbatim>\<open>reverse=True\<close> it sorts the reversed
  list and reverses the result, so that equal keys keep their order.
\<close>

definition py_sorted :: "('a \<Rightarrow> load) \<Rightarrow> bool \<Rightarrow> 'a list \<Rightarrow> 'a list" where
  "py_sorted key reverse xs =
     (if reverse then rev (sort_key key (rev xs)) else sort_key key xs)"

text \<open>\<^verbatim>\<open>MigrationScheduler._sort_instance_infos\<close>; \<^verbatim>\<open>None.values()\<close> raises
  \<^verbatim>\<open>AttributeError\<close>.\<close>

definition sort_instance_infos ::
  "heap \<Rightarrow> registry \<Rightarrow> migration_scheduler \<Rightarrow> bool \<Rightarrow> error + migration_scheduler" where
  "sort_instance_infos h reg ms descending =
     (case ms_instance_info ms of
        None \<Rightarrow> Inl AttributeError
      | Some RegistryRef \<Rightarrow>
          (let instance_infos = map snd reg
           in Inr (ms \<lparr> ms_sorted_instance_infos :=
                          Some (py_sorted (\<lambda>i. instance_load_migrate (h ! i))
                                  descending instance_infos) \<rparr>)))"

definition ms_check_migrate ::
  "heap \<Rightarrow> registry \<Rightarrow> migration_scheduler \<Rightarrow>
   (error + (string \<times> string) list) \<times> heap \<times> migration_scheduler" where
  "ms_check_migrate h reg ms =
     (case sort_instance_infos h reg ms False of
        Inl e \<Rightarrow> (Inl e, h, ms)
      | Inr ms1 \<Rightarrow>
          (case ms_sorted_instance_infos ms1 of
             None \<Rightarrow> (Inl AttributeError, h, ms1)
           | Some sorted_instance_infos \<Rightarrow>
               (let (pairs, h1) =
                      policy_check_migrate (ms_check_migrate_policy ms1) h sorted_instance_infos
                in (Inr pairs, h1, ms1))))"

section \<open>The sub-schedulers that are not among the sources\<close>

text \<open>
  Modelled from the spec: the classes \<^verbatim>\<open>DispatchScheduler\<close> and \<^verbatim>\<open>ScaleScheduler\<close>
  are missing from the sources. The GlobalScheduler calls their constructors and their
  methods \<^verbatim>\<open>update_instance_infos\<close>, \<^verbatim>\<open>add_instance\<close>, \<^verbatim>\<open>remove_instance\<close>,
  \<^verbatim>\<open>dispatch\<close>, \<^verbatim>\<open>check_scale\<close> and \<^verbatim>\<open>get_empty_instance_info\<close>. The
  specification makes them readers of the registry that return values only (sections
  5 and 6.3), so each is a parameter: a function on the sub-scheduler's own state, of
  any type, that may raise. \<^verbatim>\<open>dispatch\<close> and \<^verbatim>\<open>check_scale\<close> read the store and
  the registry; none of them can write to either.
\<close>

record ('d, 's) collaborators =
  ds_new :: "string \<Rightarrow> instance_load_calculator \<Rightarrow> error + 'd"
  ds_update_instance_infos :: "'d \<Rightarrow> dict_ref \<Rightarrow> error option \<times> 'd"
  ds_add_instance :: "'d \<Rightarrow> string \<Rightarrow> error option \<times> 'd"
  ds_remove_instance :: "'d \<Rightarrow> string \<Rightarrow> error option \<times> 'd"
  ds_dispatch :: "heap \<Rightarrow> registry \<Rightarrow> 'd \<Rightarrow> (error + string) \<times> 'd"
  ss_new :: "load \<Rightarrow> load \<Rightarrow> string \<Rightarrow> instance_load_calculator \<Rightarrow> error + 's"
  ss_update_instance_infos :: "'s \<Rightarrow> dict_ref \<Rightarrow> error option \<times> 's"
  ss_add_instance :: "'s \<Rightarrow> string \<Rightarrow> error option \<times> 's"
  ss_remove_instance :: "'s \<Rightarrow> string \<Rightarrow> error option \<times> 's"
  ss_check_scale :: "heap \<Rightarrow> registry \<Rightarrow> 's \<Rightarrow> (error + int \<times> int) \<times> 's"
  ss_get_empty_instance_info :: "'s \<Rightarrow> instance_info"

section \<open>GlobalScheduler\<close>

text \<open>
  The configuration object is not among the sources; its fields are the ones the
  constructor reads. \<open>load_metric\<close> names the formula of the calculator, which is
  taken as the formula itself.
\<close>

record global_scheduler_config =
  cfg_load_metric :: "instance_info \<Rightarrow> action \<Rightarrow> load"
  cfg_enable_prefill_migrate :: bool
  cfg_dispatch_policy :: string
  cfg_check_migrate_policy :: string
  cfg_migrate_out_load_threshold :: load
  cfg_scale_up_threshold :: load
  cfg_scale_down_threshold :: load
  cfg_scale_policy :: string

record ('d, 's) global_scheduler =
  gs_enable_prefill_migrate :: bool
  gs_instance_load_calculator :: instance_load_calculator
  gs_dispatch_scheduler :: 'd
  gs_migrate_scheduler :: migration_scheduler
  gs_scale_scheduler :: 's
  gs_num_instance :: nat
  gs_instance_id_set :: "string set"
  gs_instance_info :: registry

definition GlobalScheduler_init ::
  "('d, 's) collaborators \<Rightarrow> global_scheduler_config \<Rightarrow> error + ('d, 's) global_scheduler" where
  "GlobalScheduler_init ext cfg =
     (let calc = \<lparr> ilc_enable_prefill_migrate = cfg_enable_prefill_migrate cfg,
                   compute_instance_load = cfg_load_metric cfg \<rparr>
      in case ds_new ext (cfg_dispatch_policy cfg) calc of
           Inl e \<Rightarrow> Inl e
         | Inr d \<Rightarrow>
             (case MigrationScheduler_init (cfg_check_migrate_policy cfg)
                     (cfg_migrate_out_load_threshold cfg) calc of
                Inl e \<Rightarrow> Inl e
              | Inr m \<Rightarrow>
                  (case ss_new ext (cfg_scale_up_threshold cfg) (cfg_scale_down_threshold cfg)
                          (cfg_scale_policy cfg) calc of
                     Inl e \<Rightarrow> Inl e
                   | Inr c \<Rightarrow>
                       Inr \<lparr> gs_enable_prefill_migrate = cfg_enable_prefill_migrate cfg,
                             gs_instance_load_calculator = calc,
                             gs_dispatch_scheduler = d,
                             gs_migrate_scheduler = m,
                             gs_scale_scheduler = c,
                             gs_num_instance = 0,
                             gs_instance_id_set = {},
                             gs_instance_info = [] \<rparr>)))"

text \<open>\<^verbatim>\<open>key in dict\<close>.\<close>

definition has_key :: "registry \<Rightarrow> string \<Rightarrow> bool" where
  "has_key reg k = (k \<in> set (map fst reg))"

text \<open>
  \<^verbatim>\<open>GlobalScheduler.update_instance_infos\<close>. The records of the batch are objects
  that the caller built for the call; each is placed in the store as the loop reaches
  it. A known id has its two loads written into the object, one after the other, and
  the registry entry rebound to the object.
\<close>

fun gs_update_instance_infos ::
  "heap \<Rightarrow> ('d, 's) global_scheduler \<Rightarrow> instance_info list \<Rightarrow> heap \<times> ('d, 's) global_scheduler" where
  "gs_update_instance_infos h s [] = (h, s)"
| "gs_update_instance_infos h s (info # instance_infos) =
     (let (i, h0) = alloc h info
      in if has_key (gs_instance_info s) (instance_id (h0 ! i))
         then
           (let calc = gs_instance_load_calculator s;
                h1 = h0[i := (h0 ! i) \<lparr> instance_load_dispatch_scale :=
                                         compute_instance_load calc (h0 ! i) Dispatch \<rparr>];
                h2 = h1[i := (h1 ! i) \<lparr> instance_load_migrate :=
                                         compute_instance_load calc (h1 ! i) Migrate \<rparr>]
            in gs_update_instance_infos h2
                 (s \<lparr> gs_instance_info :=
                        AList.update (instance_id (h2 ! i)) i (gs_instance_info s) \<rparr>)
                 instance_infos)
         else gs_update_instance_infos h0 s instance_infos)"

text \<open>Sequencing of steps that may raise: the first error ends the sequence and
  leaves the state as it is at that point.\<close>

definition then_do ::
  "('st \<Rightarrow> error option \<times> 'st) \<Rightarrow> ('st \<Rightarrow> error option \<times> 'st) \<Rightarrow> 'st \<Rightarrow> error option \<times> 'st" where
  "then_do f g s = (case f s of (Some e, s1) \<Rightarrow> (Some e, s1) | (None, s1) \<Rightarrow> g s1)"

definition on_dispatch ::
  "('d \<Rightarrow> error option \<times> 'd) \<Rightarrow> ('d, 's) global_scheduler \<Rightarrow> error option \<times> ('d, 's) global_scheduler" where
  "on_dispatch f s =
     (case f (gs_dispatch_scheduler s) of (e, d) \<Rightarrow> (e, s \<lparr> gs_dispatch_scheduler := d \<rparr>))"

definition on_migrate ::
  "(migration_scheduler \<Rightarrow> error option \<times> migration_scheduler) \<Rightarrow>
   ('d, 's) global_scheduler \<Rightarrow> error option \<times> ('d, 's) global_scheduler" where
  "on_migrate f s =
     (case f (gs_migrate_scheduler s) of (e, m) \<Rightarrow> (e, s \<lparr> gs_migrate_scheduler := m \<rparr>))"

definition on_scale ::
  "('s \<Rightarrow> error option \<times> 's) \<Rightarrow> ('d, 's) global_scheduler \<Rightarrow> error option \<times> ('d, 's) global_scheduler" where
  "on_scale f s =
     (case f (gs_scale_scheduler s) of (e, c) \<Rightarrow> (e, s \<lparr> gs_scale_scheduler := c \<rparr>))"

text \<open>The loop over the three sub-schedulers, in the order of the tuple
  \<^verbatim>\<open>(dispatch_scheduler, migrate_scheduler, scale_scheduler)\<close>.\<close>

definition broadcast_add ::
  "('d, 's) collaborators \<Rightarrow> string \<Rightarrow> ('d, 's) global_scheduler \<Rightarrow>
   error option \<times> ('d, 's) global_scheduler" where
  "broadcast_add ext ins_id =
     then_do (on_dispatch (\<lambda>d. ds_update_instance_infos ext d RegistryRef))
    (then_do (on_dispatch (\<lambda>d. ds_add_instance ext d ins_id))
    (then_do (on_migrate (\<lambda>m. (None, ms_update_instance_infos m RegistryRef)))
    (then_do (on_migrate (\<lambda>m. (None, ms_add_instance m ins_id)))
    (then_do (on_scale (\<lambda>c. ss_update_instance_infos ext c RegistryRef))
             (on_scale (\<lambda>c. ss_add_instance ext c ins_id))))))"

definition broadcast_remove ::
  "('d, 's) collaborators \<Rightarrow> string \<Rightarrow> ('d, 's) global_scheduler \<Rightarrow>
   error option \<times> ('d, 's) global_scheduler" where
  "broadcast_remove ext ins_id =
     then_do (on_dispatch (\<lambda>d. ds_update_instance_infos ext d RegistryRef))
    (then_do (on_dispatch (\<lambda>d. ds_remove_instance ext d ins_id))
    (then_do (on_migrate (\<lambda>m. (None, ms_update_instance_infos m RegistryRef)))
    (then_do (on_migrate (\<lambda>m. ms_remove_instance m ins_id))
    (then_do (on_scale (\<lambda>c. ss_update_instance_infos ext c RegistryRef))
             (on_scale (\<lambda>c. ss_remove_instance ext c ins_id))))))"

text \<open>\<^verbatim>\<open>GlobalScheduler._add_instance\<close>.\<close>

definition gs_add_instance ::
  "('d, 's) collaborators \<Rightarrow> string \<Rightarrow> ('d, 's) global_scheduler \<Rightarrow>
   error option \<times> ('d, 's) global_scheduler" where
  "gs_add_instance ext ins_id s =
     (let s1 = s \<lparr> gs_instance_id_set := insert ins_id (gs_instance_id_set s) \<rparr>;
          s2 = s1 \<lparr> gs_num_instance := card (gs_instance_id_set s1) \<rparr>
      in broadcast_add ext ins_id s2)"

text \<open>\<^verbatim>\<open>GlobalScheduler._remove_instance\<close>; \<^verbatim>\<open>set.remove\<close> raises on an absent
  element.\<close>

definition gs_remove_instance ::
  "('d, 's) collaborators \<Rightarrow> string \<Rightarrow> ('d, 's) global_scheduler \<Rightarrow>
   error option \<times> ('d, 's) global_scheduler" where
  "gs_remove_instance ext ins_id s =
     (if ins_id \<in> gs_instance_id_set s
      then
        (let s1 = s \<lparr> gs_instance_id_set := gs_instance_id_set s - {ins_id} \<rparr>;
             s2 = s1 \<lparr> gs_num_instance := card (gs_instance_id_set s1) \<rparr>
         in broadcast_remove ext ins_id s2)
      else (Some KeyError, s))"

text \<open>The argument of \<^verbatim>\<open>scale_up\<close> and \<^verbatim>\<open>scale_down\<close>: one id or an iterable of
  ids.\<close>

datatype ids_arg = Single string | Many "string list"

fun instance_ids_of :: "ids_arg \<Rightarrow> string list" where
  "instance_ids_of (Single ins_id) = [ins_id]"
| "instance_ids_of (Many instance_ids) = instance_ids"

fun scale_up_loop ::
  "('d, 's) collaborators \<Rightarrow> heap \<Rightarrow> ('d, 's) global_scheduler \<Rightarrow> string list \<Rightarrow>
   error option \<times> heap \<times> ('d, 's) global_scheduler" where
  "scale_up_loop ext h s [] = (None, h, s)"
| "scale_up_loop ext h s (ins_id # instance_ids) =
     (if \<not> has_key (gs_instance_info s) ins_id
      then
        (let (new_instance_info, h0) =
               alloc h (ss_get_empty_instance_info ext (gs_scale_scheduler s));
             h1 = h0[new_instance_info := (h0 ! new_instance_info) \<lparr> instance_id := ins_id \<rparr>];
             s1 = s \<lparr> gs_instance_info :=
                        AList.update ins_id new_instance_info (gs_instance_info s) \<rparr>
         in case gs_add_instance ext ins_id s1 of
              (Some e, s2) \<Rightarrow> (Some e, h1, s2)
            | (None, s2) \<Rightarrow> scale_up_loop ext h1 s2 instance_ids)
      else scale_up_loop ext h s instance_ids)"

definition gs_scale_up ::
  "('d, 's) collaborators \<Rightarrow> heap \<Rightarrow> ('d, 's) global_scheduler \<Rightarrow> ids_arg \<Rightarrow>
   error option \<times> heap \<times> ('d, 's) global_scheduler" where
  "gs_scale_up ext h s arg = scale_up_loop ext h s (instance_ids_of arg)"

fun scale_down_loop ::
  "('d, 's) collaborators \<Rightarrow> ('d, 's) global_scheduler \<Rightarrow> string list \<Rightarrow>
   error option \<times> ('d, 's) global_scheduler" where
  "scale_down_loop ext s [] = (None, s)"
| "scale_down_loop ext s (ins_id # instance_ids) =
     (if has_key (gs_instance_info s) ins_id
      then
        (let s1 = s \<lparr> gs_instance_info := AList.delete ins_id (gs_instance_info s) \<rparr>
         in case gs_remove_instance ext ins_id s1 of
              (Some e, s2) \<Rightarrow> (Some e, s2)
            | (None, s2) \<Rightarrow> scale_down_loop ext s2 instance_ids)
      else scale_down_loop ext s instance_ids)"

definition gs_scale_down ::
  "('d, 's) collaborators \<Rightarrow> ('d, 's) global_scheduler \<Rightarrow> ids_arg \<Rightarrow>
   error option \<times> ('d, 's) global_scheduler" where
  "gs_scale_down ext s arg = scale_down_loop ext s (instance_ids_of arg)"

definition gs_dispatch ::
  "('d, 's) collaborators \<Rightarrow> heap \<Rightarrow> ('d, 's) global_scheduler \<Rightarrow>
   (error + string) \<times> ('d, 's) global_scheduler" where
  "gs_dispatch ext h s =
     (case ds_update_instance_infos ext (gs_dispatch_scheduler s) RegistryRef of
        (Some e, d) \<Rightarrow> (Inl e, s \<lparr> gs_dispatch_scheduler := d \<rparr>)
      | (None, d) \<Rightarrow>
          (case ds_dispatch ext h (gs_instance_info s) d of
             (r, d1) \<Rightarrow> (r, s \<lparr> gs_dispatch_scheduler := d1 \<rparr>)))"

definition gs_check_scale ::
  "('d, 's) collaborators \<Rightarrow> heap \<Rightarrow> ('d, 's) global_scheduler \<Rightarrow>
   (error + int \<times> int) \<times> ('d, 's) global_scheduler" where
  "gs_check_scale ext h s =
     (case ss_update_instance_infos ext (gs_scale_scheduler s) RegistryRef of
        (Some e, c) \<Rightarrow> (Inl e, s \<lparr> gs_scale_scheduler := c \<rparr>)
      | (None, c) \<Rightarrow>
          (case ss_check_scale ext h (gs_instance_info s) c of
             (r, c1) \<Rightarrow> (r, s \<lparr> gs_scale_scheduler := c1 \<rparr>)))"

definition gs_check_migrate ::
  "heap \<Rightarrow> ('d, 's) global_scheduler \<Rightarrow>
   (error + (string \<times> string) list) \<times> heap \<times> ('d, 's) global_scheduler" where
  "gs_check_migrate h s =
     (let s1 = s \<lparr> gs_migrate_scheduler :=
                    ms_update_instance_infos (gs_migrate_scheduler s) RegistryRef \<rparr>
      in case ms_check_migrate h (gs_instance_info s1) (gs_migrate_scheduler s1) of
           (migrate_instance_pairs, h1, m) \<Rightarrow>
             (migrate_instance_pairs, h1, s1 \<lparr> gs_migrate_scheduler := m \<rparr>))"

section \<open>States of a running scheduler\<close>

text \<open>
  The states a GlobalScheduler passes through: the one its constructor returns, on any
  store, and the state after each public operation, whether the operation returned or
  raised. The collaborators and the configuration are fixed.
\<close>

inductive reachable ::
  "('d, 's) collaborators \<Rightarrow> global_scheduler_config \<Rightarrow> heap \<Rightarrow> ('d, 's) global_scheduler \<Rightarrow> bool"
  for ext :: "('d, 's) collaborators" and cfg :: global_scheduler_config where
  constructed: "GlobalScheduler_init ext cfg = Inr s \<Longrightarrow> reachable ext cfg h s"
| after_update_instance_infos:
    "reachable ext cfg h s \<Longrightarrow> gs_update_instance_infos h s batch = (h1, s1) \<Longrightarrow>
     reachable ext cfg h1 s1"
| after_dispatch:
    "reachable ext cfg h s \<Longrightarrow> gs_dispatch ext h s = (r, s1) \<Longrightarrow> reachable ext cfg h s1"
| after_check_migrate:
    "reachable ext cfg h s \<Longrightarrow> gs_check_migrate h s = (pairs, h1, s1) \<Longrightarrow>
     reachable ext cfg h1 s1"
| after_check_scale:
    "reachable ext cfg h s \<Longrightarrow> gs_check_scale ext h s = (n, s1) \<Longrightarrow> reachable ext cfg h s1"
| after_scale_up:
    "reachable ext cfg h s \<Longrightarrow> gs_scale_up ext h s arg = (e, h1, s1) \<Longrightarrow>
     reachable ext cfg h1 s1"
| after_scale_down:
    "reachable ext cfg h s \<Longrightarrow> gs_scale_down ext s arg = (e, s1) \<Longrightarrow>
     reachable ext cfg h s1"

section \<open>Statements of the specification\<close>

text \<open>Policy resolution in the words of the specification: without prefill migration
  the policy is \<open>balanced\<close>, otherwise the configured one.\<close>

definition resolve_policy_spec :: "bool \<Rightarrow> string \<Rightarrow> string" where
  "resolve_policy_spec enable_prefill_migrate configured =
     (if enable_prefill_migrate then configured else ''balanced'')"

text \<open>The registry invariant of the specification: \<open>num_instance\<close>, the size of
  \<open>instance_id_set\<close> and the number of entries of \<open>instance_info\<close> agree, and the
  set is the key set of the dictionary.\<close>

definition registry_consistent :: "('d, 's) global_scheduler \<Rightarrow> bool" where
  "registry_consistent s =
     (gs_num_instance s = card (gs_instance_id_set s) \<and>
      card (gs_instance_id_set s) = length (gs_instance_info s) \<and>
      gs_instance_id_set s = set (map fst (gs_instance_info s)))"

text \<open>
  A registry is well formed on a store when its keys are distinct (it is a dictionary),
  every entry refers to an object of the store, and the object carries the key as its
  \<open>instance_id\<close>. Both writers of the registry, \<^verbatim>\<open>update_instance_infos\<close> and
  \<^verbatim>\<open>scale_up\<close>, bind an object under its own id.
\<close>

definition registry_wf :: "heap \<Rightarrow> ('d, 's) global_scheduler \<Rightarrow> bool" where
  "registry_wf h s =
     (distinct (map fst (gs_instance_info s)) \<and>
      list_all (\<lambda>(k, a). a < length h \<and> instance_id (h ! a) = k) (gs_instance_info s))"

text \<open>
  The projected load in the words of the specification, as a function of the record
  alone: one more running request and \<open>num_block_last_running_request\<close> fewer free
  blocks for the destination, the mirror operation for the source.
\<close>

definition project :: "instance_info \<Rightarrow> bool \<Rightarrow> instance_info" where
  "project info migrate_in =
     (if migrate_in
      then info \<lparr> num_running_request := num_running_request info + 1,
                  num_free_gpu_block := num_free_gpu_block info - num_block_last_running_request info \<rparr>
      else info \<lparr> num_running_request := num_running_request info - 1,
                  num_free_gpu_block := num_free_gpu_block info + num_block_last_running_request info \<rparr>)"

definition projected_load :: "instance_load_calculator \<Rightarrow> instance_info \<Rightarrow> bool \<Rightarrow> load" where
  "projected_load calc info migrate_in = compute_instance_load calc (project info migrate_in) Migrate"

text \<open>The acceptance test of the balanced policy on a source and a destination
  record.\<close>

definition balanced_accepts :: "check_migrate_policy \<Rightarrow> instance_info \<Rightarrow> instance_info \<Rightarrow> bool" where
  "balanced_accepts pol source destination =
     (let calc = cmp_instance_load_calculator pol;
          left_after = projected_load calc destination True;
          right_after = projected_load calc source False
      in \<not> cmp_migrate_out_load_threshold pol < left_after \<and>
         (chained_less (load_sub right_after left_after)
            (load_sub (instance_load_migrate source) (instance_load_migrate destination))
          \<or> instance_load_migrate destination = NegInf))"

text \<open>An incoming record with its two loads recomputed, dispatch first; and what the
  loop of \<^verbatim>\<open>update_instance_infos\<close> leaves in the store for one record of the
  batch.\<close>

definition refresh :: "instance_load_calculator \<Rightarrow> instance_info \<Rightarrow> instance_info" where
  "refresh calc info =
     (let info1 = info \<lparr> instance_load_dispatch_scale := compute_instance_load calc info Dispatch \<rparr>
      in info1 \<lparr> instance_load_migrate := compute_instance_load calc info1 Migrate \<rparr>)"

definition ingest :: "instance_load_calculator \<Rightarrow> registry \<Rightarrow> instance_info \<Rightarrow> instance_info" where
  "ingest calc reg info = (if has_key reg (instance_id info) then refresh calc info else info)"

text \<open>
  Modelled from the spec: \<^verbatim>\<open>ScaleScheduler.get_empty_instance_info\<close> is missing
  from the sources. The specification describes its result: all counters zero, the free
  blocks equal to the total blocks (a configured default), and both loads \<open>-inf\<close>. It
  is used for the concrete cases only.
\<close>

definition empty_instance_info :: "int \<Rightarrow> instance_info" where
  "empty_instance_info n =
     \<lparr> instance_id = [],
       num_running_request = 0,
       num_waiting_request = 0,
       num_killed_request = 0,
       num_total_gpu_block = n,
       num_free_gpu_block = n,
       num_used_gpu_block = 0,
       num_block_first_waiting_request = 0,
       num_block_last_running_request = 0,
       num_batched_tokens = 0,
       instance_load_dispatch_scale = NegInf,
       instance_load_migrate = NegInf \<rparr>"

text \<open>The three registry fields of a state, operations that leave them alone, the
  policy object in force, and the origin of an emitted pair: two entries of the
  registry that passed the filters and, for the balanced policy, the acceptance
  test.\<close>

definition regview :: "('d, 's) global_scheduler \<Rightarrow> nat \<times> string set \<times> registry" where
  "regview s = (gs_num_instance s, gs_instance_id_set s, gs_instance_info s)"

definition keeps_registry ::
  "(('d, 's) global_scheduler \<Rightarrow> error option \<times> ('d, 's) global_scheduler) \<Rightarrow> bool" where
  "keeps_registry f = (\<forall>s. regview (snd (f s)) = regview s)"

definition migrate_policy :: "('d, 's) global_scheduler \<Rightarrow> check_migrate_policy" where
  "migrate_policy s = ms_check_migrate_policy (gs_migrate_scheduler s)"

definition pair_origin :: "heap \<Rightarrow> ('d, 's) global_scheduler \<Rightarrow> string \<Rightarrow> string \<Rightarrow> bool" where
  "pair_origin h s src dst =
     (\<exists>ar al. map_of (gs_instance_info s) src = Some ar \<and>
              map_of (gs_instance_info s) dst = Some al \<and>
              ar < length h \<and> al < length h \<and>
              is_migrate_in (migrate_policy s) h al \<and>
              (cmp_class (migrate_policy s) \<noteq> PrefillRelaxed \<longrightarrow>
                 is_migrate_out (migrate_policy s) h ar) \<and>
              (cmp_class (migrate_policy s) = Balanced \<longrightarrow>
                 balanced_accepts (migrate_policy s) (h ! ar) (h ! al)))"

section \<open>Concrete inputs\<close>

text \<open>A load formula for the concrete cases: the number of running requests, and the
  sentinel for an instance that runs none.\<close>

definition running_metric :: "instance_info \<Rightarrow> action \<Rightarrow> load" where
  "running_metric info act =
     (if num_running_request info = 0 then NegInf
      else Fin (real_of_int (num_running_request info)))"

definition calc_off :: instance_load_calculator where
  "calc_off = \<lparr> ilc_enable_prefill_migrate = False, compute_instance_load = running_metric \<rparr>"

definition calc_on :: instance_load_calculator where
  "calc_on = \<lparr> ilc_enable_prefill_migrate = True, compute_instance_load = running_metric \<rparr>"

text \<open>
  Collaborators that never raise and keep no state, a configuration, the scheduler it
  constructs, schedulers with a given registry, and three stores: a loaded and a lightly
  loaded instance, a loaded and an idle instance, and one instance just admitted.
\<close>

definition heartbeat :: "string \<Rightarrow> int \<Rightarrow> int \<Rightarrow> instance_info" where
  "heartbeat k running killed =
     \<lparr> instance_id = k,
       num_running_request = running,
       num_waiting_request = 0,
       num_killed_request = killed,
       num_total_gpu_block = 100,
       num_free_gpu_block = 100 - 10 * running,
       num_used_gpu_block = 10 * running,
       num_block_first_waiting_request = 0,
       num_block_last_running_request = 10,
       num_batched_tokens = 0,
       instance_load_dispatch_scale = NegInf,
       instance_load_migrate = NegInf \<rparr>"

definition plain_collaborators :: "(unit, unit) collaborators" where
  "plain_collaborators =
     \<lparr> ds_new = (\<lambda>policy calc. Inr ()),
       ds_update_instance_infos = (\<lambda>d r. (None, d)),
       ds_add_instance = (\<lambda>d k. (None, d)),
       ds_remove_instance = (\<lambda>d k. (None, d)),
       ds_dispatch = (\<lambda>h reg d. (case reg of [] \<Rightarrow> Inl CollaboratorError | (k, a) # rest \<Rightarrow> Inr k, d)),
       ss_new = (\<lambda>up down policy calc. Inr ()),
       ss_update_instance_infos = (\<lambda>c r. (None, c)),
       ss_add_instance = (\<lambda>c k. (None, c)),
       ss_remove_instance = (\<lambda>c k. (None, c)),
       ss_check_scale = (\<lambda>h reg c. (Inr (0, 0), c)),
       ss_get_empty_instance_info = (\<lambda>c. empty_instance_info 0) \<rparr>"

definition relaxed_config :: global_scheduler_config where
  "relaxed_config =
     \<lparr> cfg_load_metric = running_metric,
       cfg_enable_prefill_migrate = True,
       cfg_dispatch_policy = ''load'',
       cfg_check_migrate_policy = ''prefill_relaxed'',
       cfg_migrate_out_load_threshold = Fin 3,
       cfg_scale_up_threshold = Fin 10,
       cfg_scale_down_threshold = Fin 1,
       cfg_scale_policy = ''max_load'' \<rparr>"

definition new_fleet ::
  "policy_class \<Rightarrow> instance_load_calculator \<Rightarrow> load \<Rightarrow> (unit, unit) global_scheduler" where
  "new_fleet cls calc thr =
     \<lparr> gs_enable_prefill_migrate = ilc_enable_prefill_migrate calc,
       gs_instance_load_calculator = calc,
       gs_dispatch_scheduler = (),
       gs_migrate_scheduler =
         \<lparr> ms_migrate_out_load_threshold = thr,
           ms_instance_load_calculator = calc,
           ms_enable_prefill_migrate = ilc_enable_prefill_migrate calc,
           ms_check_migrate_policy =
             \<lparr> cmp_class = cls, cmp_migrate_out_load_threshold = thr,
               cmp_instance_load_calculator = calc \<rparr>,
           ms_num_instance = 0,
           ms_instance_id_set = {},
           ms_instance_info = None,
           ms_sorted_instance_infos = None \<rparr>,
       gs_scale_scheduler = (),
       gs_num_instance = 0,
       gs_instance_id_set = {},
       gs_instance_info = [] \<rparr>"

definition fleet ::
  "policy_class \<Rightarrow> instance_load_calculator \<Rightarrow> load \<Rightarrow> registry \<Rightarrow> (unit, unit) global_scheduler" where
  "fleet cls calc thr reg =
     \<lparr> gs_enable_prefill_migrate = ilc_enable_prefill_migrate calc,
       gs_instance_load_calculator = calc,
       gs_dispatch_scheduler = (),
       gs_migrate_scheduler =
         \<lparr> ms_migrate_out_load_threshold = thr,
           ms_instance_load_calculator = calc,
           ms_enable_prefill_migrate = ilc_enable_prefill_migrate calc,
           ms_check_migrate_policy =
             \<lparr> cmp_class = cls, cmp_migrate_out_load_threshold = thr,
               cmp_instance_load_calculator = calc \<rparr>,
           ms_num_instance = length reg,
           ms_instance_id_set = set (map fst reg),
           ms_instance_info = Some RegistryRef,
           ms_sorted_instance_infos = None \<rparr>,
       gs_scale_scheduler = (),
       gs_num_instance = length reg,
       gs_instance_id_set = set (map fst reg),
       gs_instance_info = reg \<rparr>"

definition hot_cold :: heap where
  "hot_cold = [refresh calc_off (heartbeat ''hot'' 5 0), refresh calc_off (heartbeat ''cold'' 1 0)]"

definition hot_new :: heap where
  "hot_new = [refresh calc_off (heartbeat ''hot'' 5 0), refresh calc_off (heartbeat ''new'' 0 0)]"

definition one_a :: heap where
  "one_a = [(empty_instance_info 0) \<lparr> instance_id := ''a'' \<rparr>]"

definition balanced_pair :: "(unit, unit) global_scheduler" where
  "balanced_pair = fleet Balanced calc_off (Fin 3) [(''hot'', 0), (''cold'', 1)]"

definition balanced_fresh :: "(unit, unit) global_scheduler" where
  "balanced_fresh = fleet Balanced calc_off (Fin 0) [(''hot'', 0), (''new'', 1)]"

definition relaxed_single :: "(unit, unit) global_scheduler" where
  "relaxed_single = fleet PrefillRelaxed calc_on (Fin 3) [(''a'', 0)]"

text \<open>
  A load formula whose values differ by less than the rounding error of their
  difference, and a loaded and an idle instance under it: the stored loads are \<open>1\<close>
  and \<open>0\<close>, the projected loads are \<open>1\<close> and \<open>2^-60\<close>.
\<close>

definition fine_metric :: "instance_info \<Rightarrow> action \<Rightarrow> load" where
  "fine_metric info act =
     (if num_running_request info = 0 then Fin 0
      else if num_running_request info = 1 then Fin (1 / 2 ^ 60)
      else Fin 1)"

definition calc_fine :: instance_load_calculator where
  "calc_fine = \<lparr> ilc_enable_prefill_migrate = False, compute_instance_load = fine_metric \<rparr>"

definition near_tie :: heap where
  "near_tie = [refresh calc_fine (heartbeat ''hot'' 5 0), refresh calc_fine (heartbeat ''cold'' 0 0)]"

definition balanced_near_tie :: "(unit, unit) global_scheduler" where
  "balanced_near_tie = fleet Balanced calc_fine (Fin (1 / 2)) [(''hot'', 0), (''cold'', 1)]"

section \<open>Comparing loads\<close>

lemma load_less_eq_simps [simp]:
  "NegInf \<le> y"
  "Fin a \<le> NegInf \<longleftrightarrow> False"
  "Fin a \<le> Fin b \<longleftrightarrow> a \<le> b"
  "Fin a \<le> PosInf"
  "y \<le> PosInf"
  "PosInf \<le> NegInf \<longleftrightarrow> False"
  "PosInf \<le> Fin b \<longleftrightarrow> False"
  by (cases y; simp add: less_eq_load_def)+

lemma load_less_simps [simp]:
  "y < NegInf \<longleftrightarrow> False"
  "NegInf < Fin b"
  "NegInf < PosInf"
  "Fin a < Fin b \<longleftrightarrow> a < b"
  "Fin a < PosInf"
  "PosInf < y \<longleftrightarrow> False"
  by (cases y; auto simp add: less_load_def)+

section \<open>Rounding to binary64\<close>

text \<open>
  The exponent is characterised by the binade of its argument; rounding is odd,
  monotone and keeps zero. So a float difference is positive only if the exact
  difference is, and one float difference is below another only if the exact
  differences are in that order: the chained comparison of
  \<^verbatim>\<open>Balanced.check_migrate\<close> on floats implies the one on the real numbers.
\<close>

lemma bitlen_eqI:
  assumes "0 \<le> k" and "2 ^ nat k \<le> m" and "m < 2 ^ nat (k + 1)"
  shows "bitlen m = k + 1"
proof -
  have "(0::int) < 2 ^ nat k" by simp
  with assms(2) have pos: "0 < m" by linarith
  from bitlen_bounds [OF pos]
  have lo: "2 ^ nat (bitlen m - 1) \<le> m" and hi: "m < 2 ^ nat (bitlen m)" by simp_all
  have b1: "1 \<le> bitlen m"
    using pos by (simp add: bitlen_alt_def)
  from lo assms(3) have "(2::int) ^ nat (bitlen m - 1) < 2 ^ nat (k + 1)" by linarith
  then have "nat (bitlen m - 1) < nat (k + 1)" by simp
  moreover from hi assms(2) have "(2::int) ^ nat k < 2 ^ nat (bitlen m)" by linarith
  then have "nat k < nat (bitlen m)" by simp
  ultimately show ?thesis using assms(1) b1 by linarith
qed

lemma float_exponent_normal:
  assumes e: "- 1022 \<le> e" and lo: "2 powi e \<le> \<bar>x\<bar>" and hi: "\<bar>x\<bar> < 2 powi (e + 1)"
  shows "float_exponent x = e"
proof -
  let ?m = "\<lfloor>\<bar>x\<bar> * 2 ^ 1074\<rfloor>"
  let ?k = "e + 1074"
  have k: "0 \<le> ?k" using e by simp
  have p: "(2::real) ^ 1074 = 2 powi 1074" by simp
  have "(2::real) powi ?k \<le> \<bar>x\<bar> * 2 ^ 1074"
    unfolding p using lo by (simp add: power_int_add)
  then have "real_of_int (2 ^ nat ?k) \<le> \<bar>x\<bar> * 2 ^ 1074"
    using k by (simp add: power_int_nonneg_exp)
  then have l: "2 ^ nat ?k \<le> ?m" by (simp only: le_floor_iff)
  have "\<bar>x\<bar> * 2 ^ 1074 < (2::real) powi (?k + 1)"
    unfolding p using hi by (simp add: power_int_add)
  then have "\<bar>x\<bar> * 2 ^ 1074 < real_of_int (2 ^ nat (?k + 1))"
    using k by (simp add: power_int_nonneg_exp)
  then have h: "?m < 2 ^ nat (?k + 1)" by (simp only: floor_less_iff)
  from bitlen_eqI [OF k l h] have "bitlen ?m = e + 1075" by simp
  then show ?thesis using e by (simp add: float_exponent_def)
qed

lemma float_exponent_subnormal:
  assumes "\<bar>x\<bar> < 2 powi (- 1022)"
  shows "float_exponent x = - 1022"
proof -
  let ?m = "\<lfloor>\<bar>x\<bar> * 2 ^ 1074\<rfloor>"
  have p: "(2::real) ^ 1074 = 2 powi 1074" by simp
  have "\<bar>x\<bar> * 2 ^ 1074 < (2::real) powi (- 1022) * 2 powi 1074"
    unfolding p using assms by simp
  also have "\<dots> = 2 powi 52" by (simp flip: power_int_add)
  finally have "\<bar>x\<bar> * 2 ^ 1074 < real_of_int (2 ^ 52)" by simp
  then have h: "?m < 2 ^ 52" by (simp only: floor_less_iff)
  have "bitlen ?m \<le> 52"
  proof (cases "0 < ?m")
    case True
    from bitlen_bounds [OF True] h have lt: "(2::int) ^ nat (bitlen ?m - 1) < 2 ^ 52" by linarith
    have "nat (bitlen ?m - 1) < 52" by (rule power_less_imp_less_exp [OF _ lt]) simp
    then show ?thesis by linarith
  next
    case False
    then have "bitlen ?m = 0" by (simp add: bitlen_eq_zero_iff)
    then show ?thesis by simp
  qed
  then show ?thesis by (simp add: float_exponent_def)
qed

lemma float_exponent_ge: "- 1022 \<le> float_exponent x"
  by (simp add: float_exponent_def)

lemma float_exponent_minus: "float_exponent (- x) = float_exponent x"
  by (simp add: float_exponent_def)

lemma binade_exists:
  fixes x :: real
  assumes "2 powi (- 1022) \<le> \<bar>x\<bar>"
  shows "\<exists>e. - 1022 \<le> e \<and> 2 powi e \<le> \<bar>x\<bar> \<and> \<bar>x\<bar> < 2 powi (e + 1)"
proof -
  have "(0::real) < 2 powi (- 1022)" by (rule zero_less_power_int) simp
  with assms have pos: "0 < \<bar>x\<bar>" by linarith
  define e where "e = \<lfloor>log 2 \<bar>x\<bar>\<rfloor>"
  from pos have "2 powr (real_of_int e) \<le> \<bar>x\<bar> \<and> \<bar>x\<bar> < 2 powr (real_of_int e + 1)"
    using floor_log_eq_powr_iff [of "\<bar>x\<bar>" 2 e] by (simp add: e_def)
  then have b: "2 powi e \<le> \<bar>x\<bar>" "\<bar>x\<bar> < 2 powi (e + 1)"
    using powr_real_of_int' [of 2 e] powr_real_of_int' [of 2 "e + 1"] by simp_all
  from assms b(2) have "(2::real) powi (- 1022) < 2 powi (e + 1)" by linarith
  then have "- 1022 < e + 1"
    using power_int_increasing [of "e + 1" "- 1022" "2::real"] by (cases "- 1022 < e + 1") auto
  with b show ?thesis by (intro exI [of _ e]) simp
qed

lemma float_exponent_upper: "\<bar>x\<bar> < 2 powi (float_exponent x + 1)"
proof (cases "2 powi (- 1022) \<le> \<bar>x\<bar>")
  case True
  from binade_exists [OF True] obtain e where
    e: "- 1022 \<le> e" "2 powi e \<le> \<bar>x\<bar>" "\<bar>x\<bar> < 2 powi (e + 1)" by blast
  from float_exponent_normal [OF e] e(3) show ?thesis by simp
next
  case False
  then have s: "\<bar>x\<bar> < 2 powi (- 1022)" by simp
  have "(2::real) powi (- 1022) < 2 powi (- 1022 + 1)"
    by (rule power_int_strict_increasing) simp_all
  with s float_exponent_subnormal [OF s] show ?thesis by simp
qed

lemma float_exponent_lower:
  assumes "- 1022 < float_exponent x"
  shows "2 powi float_exponent x \<le> \<bar>x\<bar>"
proof (cases "2 powi (- 1022) \<le> \<bar>x\<bar>")
  case True
  from binade_exists [OF True] obtain e where
    e: "- 1022 \<le> e" "2 powi e \<le> \<bar>x\<bar>" "\<bar>x\<bar> < 2 powi (e + 1)" by blast
  from float_exponent_normal [OF e] e(2) show ?thesis by simp
next
  case False
  then have "\<bar>x\<bar> < 2 powi (- 1022)" by simp
  from float_exponent_subnormal [OF this] assms show ?thesis by simp
qed

lemma float_exponent_mono:
  assumes "\<bar>x\<bar> \<le> \<bar>y\<bar>"
  shows "float_exponent x \<le> float_exponent y"
proof (rule ccontr)
  assume "\<not> float_exponent x \<le> float_exponent y"
  then have lt: "float_exponent y + 1 \<le> float_exponent x" by simp
  with float_exponent_ge [of y] have "- 1022 < float_exponent x" by linarith
  from float_exponent_lower [OF this] assms float_exponent_upper [of y]
  have "(2::real) powi float_exponent x < 2 powi (float_exponent y + 1)" by linarith
  moreover from lt have "(2::real) powi (float_exponent y + 1) \<le> 2 powi float_exponent x"
    by (rule power_int_increasing) simp
  ultimately show False by linarith
qed

lemma float_ulp_pos: "0 < float_ulp x"
  by (simp add: float_ulp_def)

lemma float_ulp_minus: "float_ulp (- x) = float_ulp x"
  by (simp add: float_ulp_def float_exponent_minus)

lemma round_half_even_of_int: "round_half_even (of_int n) = n"
  by (simp add: round_half_even_def)

lemma round_half_even_bounds:
  "\<lfloor>q\<rfloor> \<le> round_half_even q" "round_half_even q \<le> \<lfloor>q\<rfloor> + 1"
  by (simp_all add: round_half_even_def Let_def)

lemma round_half_even_mono:
  assumes "q \<le> q'"
  shows "round_half_even q \<le> round_half_even q'"
proof (cases "\<lfloor>q\<rfloor> = \<lfloor>q'\<rfloor>")
  case True
  with assms have "q - of_int \<lfloor>q\<rfloor> \<le> q' - of_int \<lfloor>q'\<rfloor>" by simp
  with True show ?thesis by (auto simp: round_half_even_def Let_def)
next
  case False
  with floor_mono [OF assms] have "\<lfloor>q\<rfloor> < \<lfloor>q'\<rfloor>" by simp
  with round_half_even_bounds(2) [of q] round_half_even_bounds(1) [of q'] show ?thesis
    by linarith
qed

lemma round_half_even_minus: "round_half_even (- q) = - round_half_even q"
proof (cases "q = of_int \<lfloor>q\<rfloor>")
  case True
  then have "round_half_even q = \<lfloor>q\<rfloor>"
    using round_half_even_of_int [of "\<lfloor>q\<rfloor>"] by simp
  moreover from True have "- q = of_int (- \<lfloor>q\<rfloor>)" by simp
  then have "round_half_even (- q) = - \<lfloor>q\<rfloor>"
    using round_half_even_of_int [of "- \<lfloor>q\<rfloor>"] by simp
  ultimately show ?thesis by simp
next
  case False
  then have f: "\<lfloor>- q\<rfloor> = - \<lfloor>q\<rfloor> - 1"
    by (simp add: floor_minus ceiling_altdef)
  have r: "- q - of_int \<lfloor>- q\<rfloor> = 1 - (q - of_int \<lfloor>q\<rfloor>)"
    by (simp add: f)
  show ?thesis
    unfolding round_half_even_def Let_def r unfolding f
    by auto
qed

lemma nearest_minus: "nearest (- x) = - nearest x"
  by (simp add: nearest_def float_ulp_minus round_half_even_minus)

lemma nearest_nonneg:
  assumes "0 \<le> x"
  shows "0 \<le> nearest x"
proof -
  from assms float_ulp_pos [of x] have "0 \<le> x / float_ulp x" by simp
  from round_half_even_mono [OF this] have "0 \<le> round_half_even (x / float_ulp x)"
    using round_half_even_of_int [of 0] by simp
  with float_ulp_pos [of x] show ?thesis by (simp add: nearest_def)
qed

lemma nearest_upper:
  assumes "0 \<le> x"
  shows "nearest x \<le> 2 powi (float_exponent x + 1)"
proof -
  let ?u = "float_ulp x"
  have u: "0 < ?u" by (rule float_ulp_pos)
  have e: "(2::real) powi (float_exponent x + 1) = of_int (2 ^ 53) * ?u"
    by (simp add: float_ulp_def power_int_add power_int_diff)
  from float_exponent_upper [of x] assms have "x \<le> of_int (2 ^ 53) * ?u"
    unfolding e [symmetric] by simp
  with u have "x / ?u \<le> of_int (2 ^ 53)" by (simp add: pos_divide_le_eq)
  from round_half_even_mono [OF this] have "round_half_even (x / ?u) \<le> 2 ^ 53"
    unfolding round_half_even_of_int .
  then have "real_of_int (round_half_even (x / ?u)) \<le> of_int (2 ^ 53)"
    by (simp only: of_int_le_iff)
  with u have "real_of_int (round_half_even (x / ?u)) * ?u \<le> of_int (2 ^ 53) * ?u"
    by (simp only: mult_le_cancel_right_pos)
  then show ?thesis unfolding e nearest_def .
qed

lemma nearest_lower:
  assumes "0 \<le> x" and "- 1022 < float_exponent x"
  shows "2 powi float_exponent x \<le> nearest x"
proof -
  let ?u = "float_ulp x"
  have u: "0 < ?u" by (rule float_ulp_pos)
  have e: "(2::real) powi float_exponent x = of_int (2 ^ 52) * ?u"
    by (simp add: float_ulp_def power_int_diff)
  from float_exponent_lower [OF assms(2)] assms(1) have "of_int (2 ^ 52) * ?u \<le> x"
    unfolding e [symmetric] by simp
  with u have "of_int (2 ^ 52) \<le> x / ?u" by (simp add: pos_le_divide_eq)
  from round_half_even_mono [OF this] have "2 ^ 52 \<le> round_half_even (x / ?u)"
    unfolding round_half_even_of_int .
  then have "real_of_int (2 ^ 52) \<le> of_int (round_half_even (x / ?u))"
    by (simp only: of_int_le_iff)
  with u have "of_int (2 ^ 52) * ?u \<le> real_of_int (round_half_even (x / ?u)) * ?u"
    by (simp only: mult_le_cancel_right_pos)
  then show ?thesis unfolding e nearest_def .
qed

lemma nearest_mono_nonneg:
  assumes "0 \<le> x" and "x \<le> y"
  shows "nearest x \<le> nearest y"
proof -
  from assms have y: "0 \<le> y" by simp
  from assms have "\<bar>x\<bar> \<le> \<bar>y\<bar>" by simp
  from float_exponent_mono [OF this] consider
    "float_exponent x = float_exponent y" | "float_exponent x + 1 \<le> float_exponent y"
    by linarith
  then show ?thesis
  proof cases
    case 1
    then have u: "float_ulp y = float_ulp x" by (simp add: float_ulp_def)
    from assms(2) float_ulp_pos [of x] have "x / float_ulp x \<le> y / float_ulp x"
      by (simp add: divide_right_mono)
    from round_half_even_mono [OF this]
    have "real_of_int (round_half_even (x / float_ulp x))
            \<le> of_int (round_half_even (y / float_ulp x))"
      by (simp only: of_int_le_iff)
    with float_ulp_pos [of x] show ?thesis
      unfolding nearest_def u by (simp only: mult_le_cancel_right_pos)
  next
    case 2
    with float_exponent_ge [of x] have n: "- 1022 < float_exponent y" by linarith
    from 2 have "(2::real) powi (float_exponent x + 1) \<le> 2 powi float_exponent y"
      by (rule power_int_increasing) simp
    with nearest_upper [OF assms(1)] nearest_lower [OF y n] show ?thesis by linarith
  qed
qed

lemma nearest_mono:
  assumes "x \<le> y"
  shows "nearest x \<le> nearest y"
proof -
  consider "0 \<le> x" | "y \<le> 0" | "x < 0" "0 < y" by linarith
  then show ?thesis
  proof cases
    case 1
    then show ?thesis using assms by (rule nearest_mono_nonneg)
  next
    case 2
    with assms have "0 \<le> - y" "- y \<le> - x" by simp_all
    from nearest_mono_nonneg [OF this] show ?thesis by (simp add: nearest_minus)
  next
    case 3
    from 3(1) have "0 \<le> nearest (- x)" by (intro nearest_nonneg) simp
    moreover from 3(2) have "0 \<le> nearest y" by (intro nearest_nonneg) simp
    ultimately show ?thesis by (simp add: nearest_minus)
  qed
qed

lemma nearest_zero: "nearest 0 = 0"
  using round_half_even_of_int [of 0] by (simp add: nearest_def)

lemma float_round_zero: "float_round 0 = Fin 0"
  by (simp add: float_round_def nearest_zero)

lemma float_round_mono:
  assumes "x \<le> y"
  shows "float_round x \<le> float_round y"
  using nearest_mono [OF assms] by (simp add: float_round_def Let_def)

lemma float_round_less_imp_less: "float_round x < float_round y \<Longrightarrow> x < y"
  using float_round_mono [of y x] by (cases "x < y") (simp_all add: not_less)

lemma load_sub_positive:
  assumes "load_sub a b = Some g" and "Fin 0 < g"
  shows "b < a"
proof (cases a; cases b)
  fix x y assume ab: "a = Fin x" "b = Fin y"
  with assms have "float_round 0 < float_round (x - y)" by (simp add: float_round_zero)
  from float_round_less_imp_less [OF this] ab show ?thesis by simp
qed (use assms in auto)

lemma chained_less_gaps:
  assumes "chained_less x y"
  shows "\<exists>gap_after gap_before. x = Some gap_after \<and> y = Some gap_before \<and>
           Fin 0 < gap_after \<and> gap_after < gap_before"
  using assms by (cases x; cases y) simp_all

lemma chained_less_exact:
  assumes "chained_less (load_sub (Fin a) (Fin b)) (load_sub (Fin c) (Fin d))"
  shows "0 < a - b \<and> a - b < c - d"
  using assms float_round_less_imp_less [of 0 "a - b"] float_round_less_imp_less [of "a - b" "c - d"]
  by (simp add: float_round_zero)

lemma float_round_at:
  assumes "- 1022 \<le> e" and "2 powi e \<le> \<bar>x\<bar>" and "\<bar>x\<bar> < 2 powi (e + 1)"
  shows "float_round x =
     (let y = of_int (round_half_even (x / 2 powi (e - 52))) * 2 powi (e - 52)
      in if 2 ^ 1024 \<le> y then PosInf else if y \<le> - (2 ^ 1024) then NegInf else Fin y)"
  unfolding float_round_def nearest_def float_ulp_def float_exponent_normal [OF assms] ..

text \<open>Differences that the concrete cases compute. The last one is rounded: the
  exact difference \<open>1 - 2^-60\<close> is not a binary64 value.\<close>

lemma float_round_1: "float_round 1 = Fin 1"
  by (subst float_round_at [of 0]) (simp_all add: round_half_even_def power_int_minus)

lemma float_round_2: "float_round 2 = Fin 2"
  by (subst float_round_at [of 1]) (simp_all add: round_half_even_def power_int_minus)

lemma float_round_4: "float_round 4 = Fin 4"
  by (subst float_round_at [of 2]) (simp_all add: round_half_even_def power_int_minus)

lemma float_round_below_1: "float_round (1 - 1 / 2 ^ 60) = Fin 1"
  by (subst float_round_at [of "- 1"]) (simp_all add: round_half_even_def power_int_minus)

section \<open>Unfolding the operations on concrete states\<close>

lemmas run_defs =
  gs_check_migrate_def ms_update_instance_infos_def ms_check_migrate_def
  sort_instance_infos_def py_sorted_def policy_check_migrate_def
  Balanced_check_migrate_def PrefillConstrained_check_migrate_def PrefillRelaxed_check_migrate_def
  emit_all_def is_migrate_in_def is_migrate_out_def compute_instance_load_after_migrate_def
  deepcopy_def alloc_def fleet_def refresh_def heartbeat_def running_metric_def
  calc_off_def calc_on_def Let_def float_round_1 float_round_2 float_round_4

lemmas update_defs =
  alloc_def has_key_def fleet_def refresh_def heartbeat_def running_metric_def calc_on_def
  calc_off_def Let_def one_a_def empty_instance_info_def

lemmas scale_defs =
  gs_scale_up_def gs_scale_down_def has_key_def alloc_def gs_add_instance_def
  gs_remove_instance_def broadcast_add_def broadcast_remove_def then_do_def
  on_dispatch_def on_migrate_def on_scale_def ms_update_instance_infos_def ms_add_instance_def
  ms_remove_instance_def plain_collaborators_def fleet_def Let_def empty_instance_info_def

lemmas fleet_defs =
  balanced_pair_def balanced_fresh_def relaxed_single_def hot_cold_def hot_new_def one_a_def
  balanced_near_tie_def near_tie_def calc_fine_def fine_metric_def
  empty_instance_info_def migrate_policy_def registry_wf_def projected_load_def project_def

section \<open>Construction of the MigrationScheduler\<close>

lemma get_policy_balanced:
  "get_policy ''balanced'' thr calc =
     Inr \<lparr> cmp_class = Balanced, cmp_migrate_out_load_threshold = thr,
           cmp_instance_load_calculator = calc \<rparr>"
  by (simp add: get_policy_def POLICY_REGISTRY_def)

lemma get_policy_unknown:
  assumes "p \<notin> {''balanced'', ''prefill_constrained'', ''prefill_relaxed''}"
  shows "get_policy p thr calc = Inl KeyError"
  using assms by (simp add: get_policy_def POLICY_REGISTRY_def)

text \<open>
  C3. Without prefill migration the constructed scheduler does not depend on the
  configured policy name: it is the scheduler constructed for \<open>balanced\<close>, its policy
  object is of class \<open>Balanced\<close>, and so \<open>check_migrate\<close> returns the same pairs on
  every store and registry. With prefill migration the configured policy is used: each
  of the three names gives a policy object of its own class, with the threshold and the
  calculator of the scheduler, \<open>check_migrate\<close> of the scheduler runs the method of
  that class on the registry sorted by ascending load, and for every name the policy
  object is the one the factory gives. Both cases are the resolution rule of the
  specification, \<open>resolve_policy_spec\<close>.
\<close>

theorem policy_resolution:
  "MigrationScheduler_init p thr calc =
     MigrationScheduler_init (resolve_policy_spec (ilc_enable_prefill_migrate calc) p) thr calc
   \<and> (\<not> ilc_enable_prefill_migrate calc \<longrightarrow>
        MigrationScheduler_init p thr calc = MigrationScheduler_init ''balanced'' thr calc
        \<and> map_sum id (\<lambda>ms. cmp_class (ms_check_migrate_policy ms))
             (MigrationScheduler_init p thr calc) = Inr Balanced
        \<and> (\<forall>h reg. map_sum id (\<lambda>ms. fst (ms_check_migrate h reg (ms_update_instance_infos ms RegistryRef)))
                      (MigrationScheduler_init p thr calc)
                  = map_sum id (\<lambda>ms. fst (ms_check_migrate h reg (ms_update_instance_infos ms RegistryRef)))
                      (MigrationScheduler_init ''balanced'' thr calc)))
   \<and> (ilc_enable_prefill_migrate calc \<longrightarrow>
        map_sum id ms_check_migrate_policy (MigrationScheduler_init p thr calc)
          = get_policy p thr calc
        \<and> map_sum id ms_check_migrate_policy (MigrationScheduler_init ''balanced'' thr calc)
          = Inr \<lparr> cmp_class = Balanced, cmp_migrate_out_load_threshold = thr,
                  cmp_instance_load_calculator = calc \<rparr>
        \<and> map_sum id ms_check_migrate_policy (MigrationScheduler_init ''prefill_constrained'' thr calc)
          = Inr \<lparr> cmp_class = PrefillConstrained, cmp_migrate_out_load_threshold = thr,
                  cmp_instance_load_calculator = calc \<rparr>
        \<and> map_sum id ms_check_migrate_policy (MigrationScheduler_init ''prefill_relaxed'' thr calc)
          = Inr \<lparr> cmp_class = PrefillRelaxed, cmp_migrate_out_load_threshold = thr,
                  cmp_instance_load_calculator = calc \<rparr>
        \<and> (\<forall>h reg.
              map_sum id (\<lambda>ms. fst (ms_check_migrate h reg (ms_update_instance_infos ms RegistryRef)))
                (MigrationScheduler_init ''balanced'' thr calc)
              = Inr (Inr (fst (Balanced_check_migrate
                     \<lparr> cmp_class = Balanced, cmp_migrate_out_load_threshold = thr,
                       cmp_instance_load_calculator = calc \<rparr> h
                     (sort_key (\<lambda>i. instance_load_migrate (h ! i)) (map snd reg)))))
            \<and> map_sum id (\<lambda>ms. fst (ms_check_migrate h reg (ms_update_instance_infos ms RegistryRef)))
                (MigrationScheduler_init ''prefill_constrained'' thr calc)
              = Inr (Inr (fst (PrefillConstrained_check_migrate
                     \<lparr> cmp_class = PrefillConstrained, cmp_migrate_out_load_threshold = thr,
                       cmp_instance_load_calculator = calc \<rparr> h
                     (sort_key (\<lambda>i. instance_load_migrate (h ! i)) (map snd reg)))))
            \<and> map_sum id (\<lambda>ms. fst (ms_check_migrate h reg (ms_update_instance_infos ms RegistryRef)))
                (MigrationScheduler_init ''prefill_relaxed'' thr calc)
              = Inr (Inr (fst (PrefillRelaxed_check_migrate
                     \<lparr> cmp_class = PrefillRelaxed, cmp_migrate_out_load_threshold = thr,
                       cmp_instance_load_calculator = calc \<rparr> h
                     (sort_key (\<lambda>i. instance_load_migrate (h ! i)) (map snd reg)))))))"
proof -
  have same: "\<not> ilc_enable_prefill_migrate calc \<Longrightarrow>
      MigrationScheduler_init p thr calc = MigrationScheduler_init ''balanced'' thr calc"
    by (simp add: MigrationScheduler_init_def)
  have cls: "\<not> ilc_enable_prefill_migrate calc \<Longrightarrow>
      map_sum id (\<lambda>ms. cmp_class (ms_check_migrate_policy ms))
        (MigrationScheduler_init p thr calc) = Inr Balanced"
    by (simp add: MigrationScheduler_init_def get_policy_balanced)
  have conf: "ilc_enable_prefill_migrate calc \<Longrightarrow>
      map_sum id ms_check_migrate_policy (MigrationScheduler_init p thr calc)
        = get_policy p thr calc"
    by (cases "get_policy p thr calc") (simp_all add: MigrationScheduler_init_def)
  have res: "MigrationScheduler_init p thr calc =
     MigrationScheduler_init (resolve_policy_spec (ilc_enable_prefill_migrate calc) p) thr calc"
    by (cases "ilc_enable_prefill_migrate calc")
       (simp_all add: MigrationScheduler_init_def resolve_policy_spec_def)
  have names: "ilc_enable_prefill_migrate calc \<Longrightarrow>
      map_sum id ms_check_migrate_policy (MigrationScheduler_init ''balanced'' thr calc)
          = Inr \<lparr> cmp_class = Balanced, cmp_migrate_out_load_threshold = thr,
                  cmp_instance_load_calculator = calc \<rparr>
        \<and> map_sum id ms_check_migrate_policy (MigrationScheduler_init ''prefill_constrained'' thr calc)
          = Inr \<lparr> cmp_class = PrefillConstrained, cmp_migrate_out_load_threshold = thr,
                  cmp_instance_load_calculator = calc \<rparr>
        \<and> map_sum id ms_check_migrate_policy (MigrationScheduler_init ''prefill_relaxed'' thr calc)
          = Inr \<lparr> cmp_class = PrefillRelaxed, cmp_migrate_out_load_threshold = thr,
                  cmp_instance_load_calculator = calc \<rparr>"
    by (simp add: MigrationScheduler_init_def get_policy_def POLICY_REGISTRY_def)
  have runs: "ilc_enable_prefill_migrate calc \<Longrightarrow>
      map_sum id (\<lambda>ms. fst (ms_check_migrate h reg (ms_update_instance_infos ms RegistryRef)))
                (MigrationScheduler_init ''balanced'' thr calc)
              = Inr (Inr (fst (Balanced_check_migrate
                     \<lparr> cmp_class = Balanced, cmp_migrate_out_load_threshold = thr,
                       cmp_instance_load_calculator = calc \<rparr> h
                     (sort_key (\<lambda>i. instance_load_migrate (h ! i)) (map snd reg)))))
            \<and> map_sum id (\<lambda>ms. fst (ms_check_migrate h reg (ms_update_instance_infos ms RegistryRef)))
                (MigrationScheduler_init ''prefill_constrained'' thr calc)
              = Inr (Inr (fst (PrefillConstrained_check_migrate
                     \<lparr> cmp_class = PrefillConstrained, cmp_migrate_out_load_threshold = thr,
                       cmp_instance_load_calculator = calc \<rparr> h
                     (sort_key (\<lambda>i. instance_load_migrate (h ! i)) (map snd reg)))))
            \<and> map_sum id (\<lambda>ms. fst (ms_check_migrate h reg (ms_update_instance_infos ms RegistryRef)))
                (MigrationScheduler_init ''prefill_relaxed'' thr calc)
              = Inr (Inr (fst (PrefillRelaxed_check_migrate
                     \<lparr> cmp_class = PrefillRelaxed, cmp_migrate_out_load_threshold = thr,
                       cmp_instance_load_calculator = calc \<rparr> h
                     (sort_key (\<lambda>i. instance_load_migrate (h ! i)) (map snd reg)))))" for h reg
    by (simp add: MigrationScheduler_init_def get_policy_def POLICY_REGISTRY_def
        ms_update_instance_infos_def ms_check_migrate_def sort_instance_infos_def py_sorted_def
        policy_check_migrate_def Let_def split_beta)
  from same cls conf res names runs show ?thesis by simp
qed

theorem policy_resolution_witness:
  "\<not> ilc_enable_prefill_migrate calc_off
   \<and> MigrationScheduler_init ''prefill_relaxed'' (Fin 3) calc_off
     = MigrationScheduler_init ''balanced'' (Fin 3) calc_off
   \<and> map_sum id (\<lambda>ms. cmp_class (ms_check_migrate_policy ms))
        (MigrationScheduler_init ''prefill_relaxed'' (Fin 3) calc_off) = Inr Balanced
   \<and> map_sum id (\<lambda>ms. fst (ms_check_migrate one_a [(''a'', 0)] (ms_update_instance_infos ms RegistryRef)))
        (MigrationScheduler_init ''prefill_relaxed'' (Fin 3) calc_off) = Inr (Inr [])
   \<and> ilc_enable_prefill_migrate calc_on
   \<and> map_sum id (\<lambda>ms. cmp_class (ms_check_migrate_policy ms))
        (MigrationScheduler_init ''prefill_relaxed'' (Fin 3) calc_on) = Inr PrefillRelaxed
   \<and> map_sum id (\<lambda>ms. cmp_class (ms_check_migrate_policy ms))
        (MigrationScheduler_init ''prefill_constrained'' (Fin 3) calc_on) = Inr PrefillConstrained
   \<and> map_sum id (\<lambda>ms. fst (ms_check_migrate one_a [(''a'', 0)] (ms_update_instance_infos ms RegistryRef)))
        (MigrationScheduler_init ''prefill_relaxed'' (Fin 3) calc_on) = Inr (Inr [(''a'', ''a'')])
   \<and> map_sum id (\<lambda>ms. fst (ms_check_migrate one_a [(''a'', 0)] (ms_update_instance_infos ms RegistryRef)))
        (MigrationScheduler_init ''prefill_constrained'' (Fin 3) calc_on) = Inr (Inr [])"
  using policy_resolution [of "''prefill_relaxed''" "Fin 3" calc_off]
        policy_resolution [of "''prefill_relaxed''" "Fin 3" calc_on]
  by (simp add: run_defs fleet_defs resolve_policy_spec_def MigrationScheduler_init_def
      get_policy_def POLICY_REGISTRY_def)

text \<open>
  C6, as the code has it. A policy name outside the three registered ones raises
  \<open>KeyError\<close> at construction when prefill migration is enabled. When it is disabled
  the configured name is never looked up, and the construction succeeds.
\<close>

theorem unknown_policy_raises_when_enabled:
  assumes "p \<notin> {''balanced'', ''prefill_constrained'', ''prefill_relaxed''}"
  shows "(ilc_enable_prefill_migrate calc \<longrightarrow>
            MigrationScheduler_init p thr calc = Inl KeyError)
       \<and> (\<not> ilc_enable_prefill_migrate calc \<longrightarrow>
            \<not> isl (MigrationScheduler_init p thr calc))"
  using assms
  by (simp add: MigrationScheduler_init_def get_policy_unknown get_policy_balanced)

theorem unknown_policy_raises_when_enabled_witness:
  "''round_robin'' \<notin> {''balanced'', ''prefill_constrained'', ''prefill_relaxed''}
   \<and> ilc_enable_prefill_migrate calc_on
   \<and> MigrationScheduler_init ''round_robin'' (Fin 3) calc_on = Inl KeyError
   \<and> \<not> ilc_enable_prefill_migrate calc_off
   \<and> \<not> isl (MigrationScheduler_init ''round_robin'' (Fin 3) calc_off)"
  using unknown_policy_raises_when_enabled [of "''round_robin''" calc_on "Fin 3"]
        unknown_policy_raises_when_enabled [of "''round_robin''" calc_off "Fin 3"]
  by (simp add: calc_off_def calc_on_def)

text \<open>The claim as written fails: with prefill migration disabled an unknown name
  raises nothing.\<close>

theorem unknown_policy_counterexample:
  "''round_robin'' \<notin> {''balanced'', ''prefill_constrained'', ''prefill_relaxed''}
   \<and> \<not> isl (MigrationScheduler_init ''round_robin'' (Fin 3) calc_off)"
  by (simp add: MigrationScheduler_init_def get_policy_balanced calc_off_def)

section \<open>The registry fields under the operations\<close>

lemma keeps_then_do:
  assumes "keeps_registry f" and "keeps_registry g"
  shows "keeps_registry (then_do f g)"
  unfolding keeps_registry_def
proof
  fix s
  obtain e s1 where fs: "f s = (e, s1)" by (cases "f s")
  from assms(1) fs have r1: "regview s1 = regview s"
    by (auto simp: keeps_registry_def dest: spec [where x = s])
  show "regview (snd (then_do f g s)) = regview s"
  proof (cases e)
    case None
    with fs have "then_do f g s = g s1" by (simp add: then_do_def)
    with assms(2) r1 show ?thesis by (simp add: keeps_registry_def)
  next
    case (Some err)
    with fs have "then_do f g s = (Some err, s1)" by (simp add: then_do_def)
    with r1 show ?thesis by simp
  qed
qed

lemma keeps_on_dispatch: "keeps_registry (on_dispatch f)"
  by (simp add: keeps_registry_def on_dispatch_def regview_def split: prod.split)

lemma keeps_on_migrate: "keeps_registry (on_migrate f)"
  by (simp add: keeps_registry_def on_migrate_def regview_def split: prod.split)

lemma keeps_on_scale: "keeps_registry (on_scale f)"
  by (simp add: keeps_registry_def on_scale_def regview_def split: prod.split)

lemma keeps_broadcast_add: "keeps_registry (broadcast_add ext k)"
  unfolding broadcast_add_def
  by (intro keeps_then_do keeps_on_dispatch keeps_on_migrate keeps_on_scale)

lemma keeps_broadcast_remove: "keeps_registry (broadcast_remove ext k)"
  unfolding broadcast_remove_def
  by (intro keeps_then_do keeps_on_dispatch keeps_on_migrate keeps_on_scale)

lemma regview_add_instance:
  "regview (snd (gs_add_instance ext k s)) =
     (card (insert k (gs_instance_id_set s)), insert k (gs_instance_id_set s), gs_instance_info s)"
  using keeps_broadcast_add [of ext k]
  by (simp add: gs_add_instance_def keeps_registry_def regview_def Let_def)

lemma regview_remove_instance:
  "regview (snd (gs_remove_instance ext k s)) =
     (if k \<in> gs_instance_id_set s
      then (card (gs_instance_id_set s - {k}), gs_instance_id_set s - {k}, gs_instance_info s)
      else regview s)"
  using keeps_broadcast_remove [of ext k]
  by (simp add: gs_remove_instance_def keeps_registry_def regview_def Let_def)

lemma consistent_iff:
  "registry_consistent s \<longleftrightarrow>
     distinct (map fst (gs_instance_info s)) \<and>
     gs_instance_id_set s = set (map fst (gs_instance_info s)) \<and>
     gs_num_instance s = length (gs_instance_info s)"
  unfolding registry_consistent_def
  by (metis card_distinct distinct_card length_map)

lemma consistent_regview:
  "regview s' = regview s \<Longrightarrow> registry_consistent s' = registry_consistent s"
  by (simp add: regview_def registry_consistent_def)

lemma consistent_scale_up_step:
  assumes c: "registry_consistent s" and k: "\<not> has_key (gs_instance_info s) k"
  shows "registry_consistent
           (snd (gs_add_instance ext k (s \<lparr> gs_instance_info := AList.update k a (gs_instance_info s) \<rparr>)))"
proof -
  let ?s1 = "s \<lparr> gs_instance_info := AList.update k a (gs_instance_info s) \<rparr>"
  let ?s2 = "snd (gs_add_instance ext k ?s1)"
  from c have d: "distinct (map fst (gs_instance_info s))"
    and st: "gs_instance_id_set s = set (map fst (gs_instance_info s))"
    by (simp_all add: consistent_iff)
  have rv: "regview ?s2 =
      (card (insert k (gs_instance_id_set s)), insert k (gs_instance_id_set s),
       AList.update k a (gs_instance_info s))"
    by (simp add: regview_add_instance)
  from k have keys: "map fst (AList.update k a (gs_instance_info s)) = map fst (gs_instance_info s) @ [k]"
    by (simp add: update_keys has_key_def)
  from k d have d': "distinct (map fst (AList.update k a (gs_instance_info s)))"
    by (simp add: keys has_key_def)
  have "gs_instance_info ?s2 = AList.update k a (gs_instance_info s)"
    and "gs_instance_id_set ?s2 = insert k (gs_instance_id_set s)"
    and "gs_num_instance ?s2 = card (insert k (gs_instance_id_set s))"
    using rv by (simp_all add: regview_def)
  moreover have "card (insert k (gs_instance_id_set s)) = length (AList.update k a (gs_instance_info s))"
    using d' keys st by (metis distinct_card length_map list.set(1,2) set_append Un_insert_right sup_bot.right_neutral)
  ultimately show ?thesis
    using keys st by (simp add: registry_consistent_def)
qed

lemma consistent_scale_up_loop:
  "registry_consistent s \<Longrightarrow> registry_consistent (snd (snd (scale_up_loop ext h s ids)))"
proof (induction ids arbitrary: h s)
  case Nil
  then show ?case by simp
next
  case (Cons k ids)
  show ?case
  proof (cases "has_key (gs_instance_info s) k")
    case True
    with Cons show ?thesis by simp
  next
    case False
    let ?a = "length h"
    let ?s1 = "s \<lparr> gs_instance_info := AList.update k ?a (gs_instance_info s) \<rparr>"
    obtain e s2 where r: "gs_add_instance ext k ?s1 = (e, s2)" by (cases "gs_add_instance ext k ?s1")
    from consistent_scale_up_step [OF Cons.prems False, of ext ?a] r
    have c2: "registry_consistent s2" by simp
    show ?thesis
    proof (cases e)
      case None
      with False r Cons.IH [OF c2] show ?thesis by (simp add: alloc_def)
    next
      case (Some err)
      with False r c2 show ?thesis by (simp add: alloc_def)
    qed
  qed
qed

lemma consistent_scale_down_step:
  assumes c: "registry_consistent s" and k: "has_key (gs_instance_info s) k"
  shows "registry_consistent
           (snd (gs_remove_instance ext k (s \<lparr> gs_instance_info := AList.delete k (gs_instance_info s) \<rparr>)))"
proof -
  let ?s1 = "s \<lparr> gs_instance_info := AList.delete k (gs_instance_info s) \<rparr>"
  let ?s2 = "snd (gs_remove_instance ext k ?s1)"
  from c have d: "distinct (map fst (gs_instance_info s))"
    and st: "gs_instance_id_set s = set (map fst (gs_instance_info s))"
    by (simp_all add: consistent_iff)
  from k st have kin: "k \<in> gs_instance_id_set s" by (simp add: has_key_def)
  have rv: "regview ?s2 =
      (card (gs_instance_id_set s - {k}), gs_instance_id_set s - {k},
       AList.delete k (gs_instance_info s))"
    using kin by (simp add: regview_remove_instance)
  have d': "distinct (map fst (AList.delete k (gs_instance_info s)))"
    using d by (rule distinct_delete)
  have keys: "set (map fst (AList.delete k (gs_instance_info s))) = gs_instance_id_set s - {k}"
    using st by (simp add: delete_keys)
  have len: "card (gs_instance_id_set s - {k}) = length (AList.delete k (gs_instance_info s))"
    using d' keys by (metis distinct_card length_map)
  from rv have "gs_instance_info ?s2 = AList.delete k (gs_instance_info s)"
    and "gs_instance_id_set ?s2 = gs_instance_id_set s - {k}"
    and "gs_num_instance ?s2 = card (gs_instance_id_set s - {k})"
    by (simp_all add: regview_def)
  with len keys show ?thesis
    by (simp add: registry_consistent_def)
qed

lemma consistent_scale_down_loop:
  "registry_consistent s \<Longrightarrow> registry_consistent (snd (scale_down_loop ext s ids))"
proof (induction ids arbitrary: s)
  case Nil
  then show ?case by simp
next
  case (Cons k ids)
  show ?case
  proof (cases "has_key (gs_instance_info s) k")
    case False
    with Cons show ?thesis by simp
  next
    case True
    let ?s1 = "s \<lparr> gs_instance_info := AList.delete k (gs_instance_info s) \<rparr>"
    obtain e s2 where r: "gs_remove_instance ext k ?s1 = (e, s2)"
      by (cases "gs_remove_instance ext k ?s1")
    from consistent_scale_down_step [OF Cons.prems True, of ext] r
    have c2: "registry_consistent s2" by simp
    show ?thesis
    proof (cases e)
      case None
      with True r Cons.IH [OF c2] show ?thesis by simp
    next
      case (Some err)
      with True r c2 show ?thesis by simp
    qed
  qed
qed

lemma update_keeps_keys:
  "map fst (gs_instance_info (snd (gs_update_instance_infos h s batch))) = map fst (gs_instance_info s)
   \<and> gs_instance_id_set (snd (gs_update_instance_infos h s batch)) = gs_instance_id_set s
   \<and> gs_num_instance (snd (gs_update_instance_infos h s batch)) = gs_num_instance s"
proof (induction batch arbitrary: h s)
  case Nil
  show ?case by simp
next
  case (Cons info batch)
  show ?case
    by (simp add: alloc_def Let_def Cons.IH update_keys has_key_def)
qed

lemma regview_dispatch: "regview (snd (gs_dispatch ext h s)) = regview s"
  by (simp add: gs_dispatch_def regview_def split: prod.split option.split)

lemma regview_check_scale: "regview (snd (gs_check_scale ext h s)) = regview s"
  by (simp add: gs_check_scale_def regview_def split: prod.split option.split)

lemma regview_check_migrate: "regview (snd (snd (gs_check_migrate h s))) = regview s"
  by (simp add: gs_check_migrate_def regview_def Let_def split: prod.split)

lemma consistent_init:
  "GlobalScheduler_init ext cfg = Inr s \<Longrightarrow> registry_consistent s"
  by (auto simp: GlobalScheduler_init_def Let_def registry_consistent_def split: sum.splits)

lemma relaxed_constructed:
  "GlobalScheduler_init plain_collaborators relaxed_config = Inr (new_fleet PrefillRelaxed calc_on (Fin 3))"
  by (simp add: new_fleet_def GlobalScheduler_init_def plain_collaborators_def relaxed_config_def
      MigrationScheduler_init_def get_policy_def POLICY_REGISTRY_def Let_def calc_on_def)

lemma relaxed_scaled_up:
  "gs_scale_up plain_collaborators [] (new_fleet PrefillRelaxed calc_on (Fin 3)) (Many [''a''])
     = (None, one_a, relaxed_single)"
  by (simp add: scale_defs new_fleet_def relaxed_single_def one_a_def)

lemma relaxed_single_reachable:
  "reachable plain_collaborators relaxed_config one_a relaxed_single"
proof -
  have "reachable plain_collaborators relaxed_config [] (new_fleet PrefillRelaxed calc_on (Fin 3))"
    by (rule reachable.constructed) (rule relaxed_constructed)
  then show ?thesis
    by (rule reachable.after_scale_up) (rule relaxed_scaled_up)
qed

text \<open>
  C5. In every state of a running scheduler, that is after construction and after each
  of \<open>update_instance_infos\<close>, \<open>dispatch\<close>, \<open>check_migrate\<close>, \<open>check_scale\<close>,
  \<open>scale_up\<close> and \<open>scale_down\<close>, \<open>num_instance\<close> is the size of
  \<open>instance_id_set\<close>, which is the number of entries of \<open>instance_info\<close>, and
  \<open>instance_id_set\<close> is the key set of \<open>instance_info\<close>. This holds for any
  behaviour of the dispatch and scale sub-schedulers, also when one of them raises in
  the middle of an operation.
\<close>

theorem registry_consistent_reachable:
  "reachable ext cfg h s \<Longrightarrow> registry_consistent s"
proof (induction rule: reachable.induct)
  case (constructed s h)
  then show ?case by (rule consistent_init)
next
  case (after_update_instance_infos h s batch h1 s1)
  from update_keeps_keys [of h s batch] after_update_instance_infos(2)
  have "map fst (gs_instance_info s1) = map fst (gs_instance_info s)"
    and "gs_instance_id_set s1 = gs_instance_id_set s"
    and "gs_num_instance s1 = gs_num_instance s" by simp_all
  with after_update_instance_infos.IH show ?case
    by (metis registry_consistent_def length_map)
next
  case (after_dispatch h s r s1)
  from regview_dispatch [of ext h s] after_dispatch(2) have "regview s1 = regview s" by simp
  from consistent_regview [OF this] after_dispatch.IH show ?case by simp
next
  case (after_check_migrate h s pairs h1 s1)
  from regview_check_migrate [of h s] after_check_migrate(2) have "regview s1 = regview s" by simp
  from consistent_regview [OF this] after_check_migrate.IH show ?case by simp
next
  case (after_check_scale h s n s1)
  from regview_check_scale [of ext h s] after_check_scale(2) have "regview s1 = regview s" by simp
  from consistent_regview [OF this] after_check_scale.IH show ?case by simp
next
  case (after_scale_up h s arg e h1 s1)
  with consistent_scale_up_loop [of s ext h "instance_ids_of arg"] show ?case
    by (simp add: gs_scale_up_def)
next
  case (after_scale_down h s arg e s1)
  with consistent_scale_down_loop [of s ext "instance_ids_of arg"] show ?case
    by (simp add: gs_scale_down_def)
qed

theorem registry_consistent_reachable_witness:
  "reachable plain_collaborators relaxed_config one_a relaxed_single
   \<and> gs_num_instance relaxed_single = 1
   \<and> gs_instance_id_set relaxed_single = {''a''}
   \<and> map fst (gs_instance_info relaxed_single) = [''a'']"
  using registry_consistent_reachable [OF relaxed_single_reachable] relaxed_single_reachable
  by (simp add: relaxed_single_def fleet_def)

section \<open>Admitting and removing one instance\<close>

lemma has_key_update: "has_key (AList.update k a reg) k' = (k' = k \<or> has_key reg k')"
  by (auto simp: has_key_def dom_update)

lemma scale_up_one:
  "\<not> has_key (gs_instance_info s) k \<Longrightarrow>
   snd (snd (gs_scale_up ext h s (Many [k]))) =
     snd (gs_add_instance ext k
            (s \<lparr> gs_instance_info := AList.update k (length h) (gs_instance_info s) \<rparr>))"
  by (simp add: gs_scale_up_def alloc_def Let_def split: prod.split option.split)

lemma scale_down_one:
  "has_key (gs_instance_info s) k \<Longrightarrow>
   snd (gs_scale_down ext s (Many [k])) =
     snd (gs_remove_instance ext k (s \<lparr> gs_instance_info := AList.delete k (gs_instance_info s) \<rparr>))"
  by (simp add: gs_scale_down_def split: prod.split option.split)

text \<open>
  C7, as the code has it. In a state that satisfies the registry invariant, for an id
  that is not yet a key of the registry, \<open>scale_up([id])\<close> followed by
  \<open>scale_down([id])\<close> leaves \<open>instance_info\<close>, \<open>instance_id_set\<close> and
  \<open>num_instance\<close> as they were before the \<open>scale_up\<close>.
\<close>

theorem scale_up_then_scale_down_restores_registry:
  assumes c: "registry_consistent s" and new: "\<not> has_key (gs_instance_info s) k"
  shows "gs_instance_info (snd (gs_scale_down ext (snd (snd (gs_scale_up ext h s (Many [k])))) (Many [k])))
           = gs_instance_info s
       \<and> gs_instance_id_set (snd (gs_scale_down ext (snd (snd (gs_scale_up ext h s (Many [k])))) (Many [k])))
           = gs_instance_id_set s
       \<and> gs_num_instance (snd (gs_scale_down ext (snd (snd (gs_scale_up ext h s (Many [k])))) (Many [k])))
           = gs_num_instance s"
proof -
  let ?s1 = "s \<lparr> gs_instance_info := AList.update k (length h) (gs_instance_info s) \<rparr>"
  let ?s2 = "snd (gs_add_instance ext k ?s1)"
  let ?s3 = "?s2 \<lparr> gs_instance_info := AList.delete k (gs_instance_info ?s2) \<rparr>"
  let ?s4 = "snd (gs_remove_instance ext k ?s3)"
  from c have st: "gs_instance_id_set s = set (map fst (gs_instance_info s))"
    and n: "gs_num_instance s = card (gs_instance_id_set s)"
    by (simp_all add: registry_consistent_def)
  from new st have notin: "k \<notin> gs_instance_id_set s" by (simp add: has_key_def)
  have v2: "regview ?s2 =
      (card (insert k (gs_instance_id_set s)), insert k (gs_instance_id_set s),
       AList.update k (length h) (gs_instance_info s))"
    by (simp add: regview_add_instance)
  then have f2: "gs_instance_info ?s2 = AList.update k (length h) (gs_instance_info s)"
    "gs_instance_id_set ?s2 = insert k (gs_instance_id_set s)"
    by (simp_all add: regview_def)
  have k2: "has_key (gs_instance_info ?s2) k" by (simp add: f2 has_key_update)
  have del: "AList.delete k (AList.update k (length h) (gs_instance_info s)) = gs_instance_info s"
    using new by (simp add: delete_update_same has_key_def)
  have "regview ?s4 =
      (card (insert k (gs_instance_id_set s) - {k}), insert k (gs_instance_id_set s) - {k},
       gs_instance_info s)"
    by (simp add: regview_remove_instance f2 del)
  with notin n have "regview ?s4 = regview s" by (simp add: regview_def)
  moreover have "snd (gs_scale_down ext (snd (snd (gs_scale_up ext h s (Many [k])))) (Many [k])) = ?s4"
    by (simp only: scale_up_one [OF new] scale_down_one [OF k2])
  ultimately show ?thesis by (simp add: regview_def)
qed

theorem scale_up_then_scale_down_restores_registry_witness:
  "registry_consistent (fleet Balanced calc_off (Fin 3) [(''a'', 0)])
   \<and> \<not> has_key (gs_instance_info (fleet Balanced calc_off (Fin 3) [(''a'', 0)])) ''b''
   \<and> gs_instance_info (snd (gs_scale_down plain_collaborators
        (snd (snd (gs_scale_up plain_collaborators one_a
           (fleet Balanced calc_off (Fin 3) [(''a'', 0)]) (Many [''b''])))) (Many [''b''])))
       = [(''a'', 0)]"
proof -
  have c: "registry_consistent (fleet Balanced calc_off (Fin 3) [(''a'', 0)])"
    by (simp add: registry_consistent_def fleet_def)
  have n: "\<not> has_key (gs_instance_info (fleet Balanced calc_off (Fin 3) [(''a'', 0)])) ''b''"
    by (simp add: has_key_def fleet_def)
  from scale_up_then_scale_down_restores_registry [OF c n, of plain_collaborators one_a] c n
  show ?thesis by (simp add: fleet_def)
qed

text \<open>For an id that is already a key the claim fails: \<open>scale_up\<close> ignores the id
  and \<open>scale_down\<close> removes the instance that was there before.\<close>

theorem scale_up_known_id_then_scale_down_counterexample:
  "gs_instance_info (fleet Balanced calc_off (Fin 3) [(''a'', 0)]) = [(''a'', 0)]
   \<and> gs_instance_info (snd (gs_scale_down plain_collaborators
        (snd (snd (gs_scale_up plain_collaborators one_a
           (fleet Balanced calc_off (Fin 3) [(''a'', 0)]) (Many [''a''])))) (Many [''a''])))
       = []"
  by (simp add: scale_defs)

section \<open>Heartbeats\<close>

lemma instance_id_refresh [simp]: "instance_id (refresh calc info) = instance_id info"
  by (simp add: refresh_def Let_def)

lemma update_step:
  "gs_update_instance_infos h s (info # rest) =
     gs_update_instance_infos
       (h @ [ingest (gs_instance_load_calculator s) (gs_instance_info s) info])
       (if has_key (gs_instance_info s) (instance_id info)
        then s \<lparr> gs_instance_info := AList.update (instance_id info) (length h) (gs_instance_info s) \<rparr>
        else s)
       rest"
  by (simp add: alloc_def Let_def ingest_def refresh_def)

lemma update_heap_extends:
  "\<exists>ext. fst (gs_update_instance_infos h s batch) = h @ ext"
proof (induction batch arbitrary: h s)
  case Nil
  show ?case by simp
next
  case (Cons info rest)
  let ?x = "ingest (gs_instance_load_calculator s) (gs_instance_info s) info"
  let ?s = "if has_key (gs_instance_info s) (instance_id info)
        then s \<lparr> gs_instance_info := AList.update (instance_id info) (length h) (gs_instance_info s) \<rparr>
        else s"
  from Cons.IH [of "h @ [?x]" ?s] obtain ext where
    "fst (gs_update_instance_infos (h @ [?x]) ?s rest) = (h @ [?x]) @ ext" by blast
  then have "fst (gs_update_instance_infos h s (info # rest)) = h @ (?x # ext)"
    by (simp only: update_step) simp
  then show ?case by blast
qed

lemma update_last_wins:
  assumes "has_key (gs_instance_info s) k"
  shows "if filter (\<lambda>i. instance_id i = k) batch = []
         then map_of (gs_instance_info (snd (gs_update_instance_infos h s batch))) k
                = map_of (gs_instance_info s) k
         else \<exists>a. map_of (gs_instance_info (snd (gs_update_instance_infos h s batch))) k = Some a \<and>
                  length h \<le> a \<and>
                  fst (gs_update_instance_infos h s batch) ! a =
                    refresh (gs_instance_load_calculator s)
                      (last (filter (\<lambda>i. instance_id i = k) batch))"
  using assms
proof (induction batch arbitrary: h s)
  case Nil
  show ?case by simp
next
  case (Cons info rest)
  let ?calc = "gs_instance_load_calculator s"
  let ?x = "ingest ?calc (gs_instance_info s) info"
  let ?s = "if has_key (gs_instance_info s) (instance_id info)
        then s \<lparr> gs_instance_info := AList.update (instance_id info) (length h) (gs_instance_info s) \<rparr>
        else s"
  let ?h1 = "fst (gs_update_instance_infos (h @ [?x]) ?s rest)"
  let ?s1 = "snd (gs_update_instance_infos (h @ [?x]) ?s rest)"
  have run: "gs_update_instance_infos h s (info # rest) = gs_update_instance_infos (h @ [?x]) ?s rest"
    by (rule update_step)
  have key: "has_key (gs_instance_info ?s) k"
    using Cons.prems by (simp add: has_key_update)
  have calc: "gs_instance_load_calculator ?s = ?calc" by simp
  note IH = Cons.IH [OF key, of "h @ [?x]"]
  from update_heap_extends [of "h @ [?x]" ?s rest] obtain ext where
    ext: "?h1 = (h @ [?x]) @ ext" by blast
  show ?case
  proof (cases "filter (\<lambda>i. instance_id i = k) rest = []")
    case False
    with IH calc obtain a where
      a: "map_of (gs_instance_info ?s1) k = Some a" "length (h @ [?x]) \<le> a"
         "?h1 ! a = refresh ?calc (last (filter (\<lambda>i. instance_id i = k) rest))"
      by auto
    from False have "last (filter (\<lambda>i. instance_id i = k) (info # rest))
        = last (filter (\<lambda>i. instance_id i = k) rest)" by simp
    with a False show ?thesis
      by (simp only: run) auto
  next
    case True
    with IH have same: "map_of (gs_instance_info ?s1) k = map_of (gs_instance_info ?s) k"
      by simp
    show ?thesis
    proof (cases "instance_id info = k")
      case False
      with True same show ?thesis
        by (simp only: run) (simp add: update_conv')
    next
      case k: True
      with Cons.prems have known: "has_key (gs_instance_info s) (instance_id info)" by simp
      from same known k have m: "map_of (gs_instance_info ?s1) k = Some (length h)"
        by (simp add: update_conv')
      have "?h1 ! length h = ?x" unfolding ext by (simp add: nth_append)
      with known have "?h1 ! length h = refresh ?calc info" by (simp add: ingest_def)
      with m True k show ?thesis
        by (simp only: run) auto
    qed
  qed
qed

text \<open>
  C4, as the code has it. \<open>update_instance_infos\<close> has no raising path; it keeps the
  keys of the registry, \<open>instance_id_set\<close> and \<open>num_instance\<close>, so a record with an
  unknown id adds and removes nothing. For every record of the batch whose id is a key,
  the registry entry of that id is afterwards the last record of the batch with that
  id, with \<open>instance_load_dispatch_scale\<close> and then \<open>instance_load_migrate\<close> set by
  the calculator.
\<close>

theorem update_instance_infos_newest_record_wins:
  "map fst (gs_instance_info (snd (gs_update_instance_infos h s batch))) = map fst (gs_instance_info s)
   \<and> gs_instance_id_set (snd (gs_update_instance_infos h s batch)) = gs_instance_id_set s
   \<and> gs_num_instance (snd (gs_update_instance_infos h s batch)) = gs_num_instance s
   \<and> (\<forall>info\<in>set batch.
        has_key (gs_instance_info s) (instance_id info) \<longrightarrow>
        (\<exists>a. map_of (gs_instance_info (snd (gs_update_instance_infos h s batch))) (instance_id info)
                = Some a \<and>
             fst (gs_update_instance_infos h s batch) ! a =
               refresh (gs_instance_load_calculator s)
                 (last (filter (\<lambda>i. instance_id i = instance_id info) batch))))"
proof -
  have "\<exists>a. map_of (gs_instance_info (snd (gs_update_instance_infos h s batch))) (instance_id info)
                = Some a \<and>
             fst (gs_update_instance_infos h s batch) ! a =
               refresh (gs_instance_load_calculator s)
                 (last (filter (\<lambda>i. instance_id i = instance_id info) batch))"
    if "info \<in> set batch" and "has_key (gs_instance_info s) (instance_id info)" for info
  proof -
    from that(1) have "filter (\<lambda>i. instance_id i = instance_id info) batch \<noteq> []"
      by (auto simp: filter_empty_conv)
    with update_last_wins [OF that(2), of batch h] show ?thesis by auto
  qed
  with update_keeps_keys [of h s batch] show ?thesis by blast
qed

theorem update_instance_infos_newest_record_wins_witness:
  "heartbeat ''a'' 2 0 \<in> set [heartbeat ''a'' 2 0, heartbeat ''ghost'' 1 0]
   \<and> has_key (gs_instance_info (fleet Balanced calc_off (Fin 3) [(''a'', 0)]))
       (instance_id (heartbeat ''a'' 2 0))
   \<and> map fst (gs_instance_info (snd (gs_update_instance_infos one_a
        (fleet Balanced calc_off (Fin 3) [(''a'', 0)])
        [heartbeat ''a'' 2 0, heartbeat ''ghost'' 1 0]))) = [''a'']
   \<and> map_of (gs_instance_info (snd (gs_update_instance_infos one_a
        (fleet Balanced calc_off (Fin 3) [(''a'', 0)])
        [heartbeat ''a'' 2 0, heartbeat ''ghost'' 1 0]))) ''a'' = Some 1
   \<and> fst (gs_update_instance_infos one_a
        (fleet Balanced calc_off (Fin 3) [(''a'', 0)])
        [heartbeat ''a'' 2 0, heartbeat ''ghost'' 1 0]) ! 1 = refresh calc_off (heartbeat ''a'' 2 0)"
  using update_instance_infos_newest_record_wins
    [of one_a "fleet Balanced calc_off (Fin 3) [(''a'', 0)]"
        "[heartbeat ''a'' 2 0, heartbeat ''ghost'' 1 0]"]
  by (simp add: update_defs)

text \<open>For a record that is followed in the batch by another one with the same id the
  claim fails: the entry is the later record.\<close>

theorem update_instance_infos_duplicate_id_counterexample:
  "heartbeat ''a'' 1 0 \<in> set [heartbeat ''a'' 1 0, heartbeat ''a'' 2 0]
   \<and> has_key (gs_instance_info (fleet Balanced calc_off (Fin 3) [(''a'', 0)]))
       (instance_id (heartbeat ''a'' 1 0))
   \<and> map_of (gs_instance_info (snd (gs_update_instance_infos one_a
        (fleet Balanced calc_off (Fin 3) [(''a'', 0)])
        [heartbeat ''a'' 1 0, heartbeat ''a'' 2 0]))) ''a'' = Some 2
   \<and> fst (gs_update_instance_infos one_a
        (fleet Balanced calc_off (Fin 3) [(''a'', 0)])
        [heartbeat ''a'' 1 0, heartbeat ''a'' 2 0]) ! 2 \<noteq> refresh calc_off (heartbeat ''a'' 1 0)"
  by (simp add: update_defs)

section \<open>Where the pairs of check_migrate come from\<close>

lemma compute_after_migrate:
  "compute_instance_load_after_migrate pol h a b =
     (projected_load (cmp_instance_load_calculator pol) (h ! a) b, h @ [project (h ! a) b])"
  by (simp add: compute_instance_load_after_migrate_def deepcopy_def alloc_def Let_def
      projected_load_def project_def)

lemma Balanced_loop_char:
  assumes "\<forall>i\<in>set js. left ! i < length h0 \<and> right ! i < length h0"
  shows "\<exists>ext1. Balanced_loop pol left right js (pairs, h0 @ ext) =
           (pairs @ map (\<lambda>i. (instance_id (h0 ! (right ! i)), instance_id (h0 ! (left ! i))))
                      (filter (\<lambda>i. balanced_accepts pol (h0 ! (right ! i)) (h0 ! (left ! i))) js),
            h0 @ ext1)"
  using assms
proof (induction js arbitrary: pairs ext)
  case Nil
  show ?case by simp
next
  case (Cons i js)
  from Cons.prems have l: "left ! i < length h0" and r: "right ! i < length h0"
    and rest: "\<forall>i\<in>set js. left ! i < length h0 \<and> right ! i < length h0" by simp_all
  let ?L = "h0 ! (left ! i)" and ?R = "h0 ! (right ! i)"
  let ?ext2 = "ext @ [project ?L True] @ [project ?R False]"
  have rd: "\<And>e. (h0 @ e) ! (left ! i) = ?L" "\<And>e. (h0 @ e) ! (right ! i) = ?R"
    using l r by (simp_all add: nth_append)
  have step: "Balanced_loop pol left right (i # js) (pairs, h0 @ ext) =
      Balanced_loop pol left right js
        (if balanced_accepts pol ?R ?L then pairs @ [(instance_id ?R, instance_id ?L)] else pairs,
         h0 @ ?ext2)"
  proof -
    have h1: "(h0 @ ext) @ [project ?L True] = h0 @ (ext @ [project ?L True])" by simp
    have rd1: "((h0 @ ext) @ [project ?L True]) ! (right ! i) = ?R"
      unfolding h1 by (rule rd)
    have rd2: "(h0 @ ?ext2) ! (left ! i) = ?L" "(h0 @ ?ext2) ! (right ! i) = ?R"
      by (rule rd)+
    have h2: "((h0 @ ext) @ [project ?L True]) @ [project ?R False] = h0 @ ?ext2" by simp
    show ?thesis
      by (simp only: Balanced_loop.simps compute_after_migrate rd rd1 Let_def prod.case h2 rd2
          balanced_accepts_def)
         (simp add: Let_def)
  qed
  from Cons.IH [OF rest, of _ ?ext2] obtain ext1 where
    "Balanced_loop pol left right js
        (if balanced_accepts pol ?R ?L then pairs @ [(instance_id ?R, instance_id ?L)] else pairs,
         h0 @ ?ext2) =
       ((if balanced_accepts pol ?R ?L then pairs @ [(instance_id ?R, instance_id ?L)] else pairs) @
          map (\<lambda>i. (instance_id (h0 ! (right ! i)), instance_id (h0 ! (left ! i))))
            (filter (\<lambda>i. balanced_accepts pol (h0 ! (right ! i)) (h0 ! (left ! i))) js),
        h0 @ ext1)"
    by blast
  with step show ?case by auto
qed

lemma emit_all_map:
  "emit_all h left right =
     map (\<lambda>i. (instance_id (h ! (right ! i)), instance_id (h ! (left ! i))))
       [0 ..< min (length left) (length right)]"
proof -
  have "\<And>acc. foldl (\<lambda>ps i. ps @ [(instance_id (h ! (right ! i)), instance_id (h ! (left ! i)))]) acc js
      = acc @ map (\<lambda>i. (instance_id (h ! (right ! i)), instance_id (h ! (left ! i)))) js" for js
    by (induction js) simp_all
  then show ?thesis by (simp add: emit_all_def)
qed

lemma policy_check_migrate_char:
  assumes valid: "\<forall>a\<in>set srt. a < length h"
  shows "\<exists>ext. snd (policy_check_migrate pol h srt) = h @ ext"
    and "\<forall>(src, dst)\<in>set (fst (policy_check_migrate pol h srt)).
           \<exists>ar\<in>set srt. \<exists>al\<in>set srt.
             src = instance_id (h ! ar) \<and> dst = instance_id (h ! al) \<and>
             is_migrate_in pol h al \<and>
             (cmp_class pol \<noteq> PrefillRelaxed \<longrightarrow> is_migrate_out pol h ar) \<and>
             (cmp_class pol = Balanced \<longrightarrow> balanced_accepts pol (h ! ar) (h ! al))"
proof -
  let ?L = "filter (is_migrate_in pol h) srt"
  let ?R = "filter (is_migrate_out pol h) (rev srt)"
  let ?n = "min (length ?L) (length ?R)"
  have inL: "?L ! i \<in> set srt \<and> is_migrate_in pol h (?L ! i)" if "i < length ?L" for i
    using nth_mem [OF that] by simp
  have inR: "?R ! i \<in> set srt \<and> is_migrate_out pol h (?R ! i)" if "i < length ?R" for i
    using nth_mem [OF that] by simp
  have inRev: "rev srt ! i \<in> set srt" if "i < length (rev srt)" for i
    using nth_mem [OF that] by simp
  have v: "\<forall>i\<in>set [0 ..< ?n]. ?L ! i < length h \<and> ?R ! i < length h"
    using inL inR valid by simp
  from Balanced_loop_char [OF v, of pol "[]" "[]"] obtain ext1 where
    bal: "Balanced_loop pol ?L ?R [0 ..< ?n] ([], h) =
            (map (\<lambda>i. (instance_id (h ! (?R ! i)), instance_id (h ! (?L ! i))))
               (filter (\<lambda>i. balanced_accepts pol (h ! (?R ! i)) (h ! (?L ! i))) [0 ..< ?n]),
             h @ ext1)"
    by auto
  show "\<exists>ext. snd (policy_check_migrate pol h srt) = h @ ext"
  proof (cases "cmp_class pol")
    case Balanced
    with bal show ?thesis
      by (simp add: policy_check_migrate_def Balanced_check_migrate_def Let_def)
  next
    case PrefillConstrained
    then have "snd (policy_check_migrate pol h srt) = h @ []"
      by (simp add: policy_check_migrate_def PrefillConstrained_check_migrate_def Let_def)
    then show ?thesis by blast
  next
    case PrefillRelaxed
    then have "snd (policy_check_migrate pol h srt) = h @ []"
      by (simp add: policy_check_migrate_def PrefillRelaxed_check_migrate_def Let_def)
    then show ?thesis by blast
  qed
  show "\<forall>(src, dst)\<in>set (fst (policy_check_migrate pol h srt)).
           \<exists>ar\<in>set srt. \<exists>al\<in>set srt.
             src = instance_id (h ! ar) \<and> dst = instance_id (h ! al) \<and>
             is_migrate_in pol h al \<and>
             (cmp_class pol \<noteq> PrefillRelaxed \<longrightarrow> is_migrate_out pol h ar) \<and>
             (cmp_class pol = Balanced \<longrightarrow> balanced_accepts pol (h ! ar) (h ! al))"
  proof (clarify)
    fix src dst
    assume mem: "(src, dst) \<in> set (fst (policy_check_migrate pol h srt))"
    show "\<exists>ar\<in>set srt. \<exists>al\<in>set srt.
             src = instance_id (h ! ar) \<and> dst = instance_id (h ! al) \<and>
             is_migrate_in pol h al \<and>
             (cmp_class pol \<noteq> PrefillRelaxed \<longrightarrow> is_migrate_out pol h ar) \<and>
             (cmp_class pol = Balanced \<longrightarrow> balanced_accepts pol (h ! ar) (h ! al))"
    proof (cases "cmp_class pol")
      case Balanced
      with bal have "fst (policy_check_migrate pol h srt) =
          map (\<lambda>i. (instance_id (h ! (?R ! i)), instance_id (h ! (?L ! i))))
            (filter (\<lambda>i. balanced_accepts pol (h ! (?R ! i)) (h ! (?L ! i))) [0 ..< ?n])"
        by (simp add: policy_check_migrate_def Balanced_check_migrate_def Let_def)
      with mem obtain i where i: "i < length ?L" "i < length ?R"
        and acc: "balanced_accepts pol (h ! (?R ! i)) (h ! (?L ! i))"
        and eq: "src = instance_id (h ! (?R ! i))" "dst = instance_id (h ! (?L ! i))"
        by auto
      from inL [OF i(1)] inR [OF i(2)] acc eq Balanced show ?thesis
        by (intro bexI [of _ "?R ! i"] bexI [of _ "?L ! i"]) simp_all
    next
      case PrefillConstrained
      then have "fst (policy_check_migrate pol h srt) =
          map (\<lambda>i. (instance_id (h ! (?R ! i)), instance_id (h ! (?L ! i)))) [0 ..< ?n]"
        by (simp add: policy_check_migrate_def PrefillConstrained_check_migrate_def Let_def
            emit_all_map)
      with mem obtain i where i: "i < length ?L" "i < length ?R"
        and eq: "src = instance_id (h ! (?R ! i))" "dst = instance_id (h ! (?L ! i))"
        by auto
      from inL [OF i(1)] inR [OF i(2)] eq PrefillConstrained show ?thesis
        by (intro bexI [of _ "?R ! i"] bexI [of _ "?L ! i"]) simp_all
    next
      case PrefillRelaxed
      then have "fst (policy_check_migrate pol h srt) =
          map (\<lambda>i. (instance_id (h ! (rev srt ! i)), instance_id (h ! (?L ! i))))
            [0 ..< min (length ?L) (length (rev srt))]"
        by (simp add: policy_check_migrate_def PrefillRelaxed_check_migrate_def Let_def
            emit_all_map)
      with mem obtain i where i: "i < length ?L" "i < length (rev srt)"
        and eq: "src = instance_id (h ! (rev srt ! i))" "dst = instance_id (h ! (?L ! i))"
        using length_filter_le [of "is_migrate_in pol h" srt] by (auto simp: less_le_trans)
      from inL [OF i(1)] inRev [OF i(2)] eq PrefillRelaxed show ?thesis
        by (intro bexI [of _ "rev srt ! i"] bexI [of _ "?L ! i"]) simp_all
    qed
  qed
qed

lemma wf_addr:
  assumes "registry_wf h s" and "(k, a) \<in> set (gs_instance_info s)"
  shows "a < length h" and "instance_id (h ! a) = k" and "map_of (gs_instance_info s) k = Some a"
  using assms by (auto simp: registry_wf_def list_all_iff)

lemma gs_check_migrate_char:
  assumes wf: "registry_wf h s"
  shows "\<exists>pairs ext m.
           gs_check_migrate h s = (Inr pairs, h @ ext, s \<lparr> gs_migrate_scheduler := m \<rparr>) \<and>
           (\<forall>(src, dst)\<in>set pairs.
              pair_origin h s src dst)"
proof -
  let ?pol = "migrate_policy s"
  let ?srt = "sort_key (\<lambda>i. instance_load_migrate (h ! i)) (map snd (gs_instance_info s))"
  have mem: "\<And>a. a \<in> set ?srt \<Longrightarrow> \<exists>k. (k, a) \<in> set (gs_instance_info s)"
    by auto
  have valid: "\<forall>a\<in>set ?srt. a < length h"
    using mem wf_addr(1) [OF wf] by blast
  obtain pairs h1 where r: "policy_check_migrate ?pol h ?srt = (pairs, h1)"
    by (cases "policy_check_migrate ?pol h ?srt")
  from policy_check_migrate_char(1) [OF valid, of ?pol] r obtain ext where h1: "h1 = h @ ext"
    by auto
  have run: "gs_check_migrate h s =
      (Inr pairs, h @ ext,
       s \<lparr> gs_migrate_scheduler :=
             (gs_migrate_scheduler s) \<lparr> ms_instance_info := Some RegistryRef,
                                        ms_sorted_instance_infos := Some ?srt \<rparr> \<rparr>)"
    using r h1
    by (simp add: gs_check_migrate_def ms_update_instance_infos_def ms_check_migrate_def
        sort_instance_infos_def py_sorted_def Let_def migrate_policy_def)
  have props: "\<forall>(src, dst)\<in>set pairs.
              pair_origin h s src dst"
  proof (clarify)
    fix src dst
    assume "(src, dst) \<in> set pairs"
    with policy_check_migrate_char(2) [OF valid, of ?pol] r
    obtain ar al where ar: "ar \<in> set ?srt" and al: "al \<in> set ?srt"
      and eq: "src = instance_id (h ! ar)" "dst = instance_id (h ! al)"
      and f: "is_migrate_in ?pol h al"
        "cmp_class ?pol \<noteq> PrefillRelaxed \<longrightarrow> is_migrate_out ?pol h ar"
        "cmp_class ?pol = Balanced \<longrightarrow> balanced_accepts ?pol (h ! ar) (h ! al)"
      by fastforce
    from mem [OF ar] obtain kr where kr: "(kr, ar) \<in> set (gs_instance_info s)" by blast
    from mem [OF al] obtain kl where kl: "(kl, al) \<in> set (gs_instance_info s)" by blast
    from wf_addr [OF wf kr] wf_addr [OF wf kl] eq f
    show "pair_origin h s src dst"
      unfolding pair_origin_def by (intro exI [of _ ar] exI [of _ al]) simp
  qed
  from run props show ?thesis by blast
qed


section \<open>Every state of a running scheduler has a well-formed registry\<close>

text \<open>
  Well-formedness is the hypothesis of the statements about \<open>check_migrate\<close> below. It
  excludes no state that the operations produce: the constructor starts with an empty
  registry, a heartbeat and a \<open>scale_up\<close> bind a new object under the id it carries, a
  \<open>scale_down\<close> only removes entries, and \<open>check_migrate\<close> only adds objects to the
  store.
\<close>

lemma wf_heap_extends: "registry_wf h s \<Longrightarrow> registry_wf (h @ ext) s"
  by (auto simp: registry_wf_def list_all_iff nth_append)

lemma wf_same_registry:
  "gs_instance_info s1 = gs_instance_info s \<Longrightarrow> registry_wf h s1 = registry_wf h s"
  by (simp add: registry_wf_def)

lemma set_update_subset:
  "(k1, a1) \<in> set (AList.update k a reg) \<Longrightarrow> (k1, a1) = (k, a) \<or> (k1, a1) \<in> set reg"
  by (induction reg) (auto split: if_splits)

lemma wf_bind:
  assumes wf: "registry_wf h s" and x: "instance_id x = k"
  shows "registry_wf (h @ [x]) (s \<lparr> gs_instance_info := AList.update k (length h) (gs_instance_info s) \<rparr>)"
proof -
  have d: "distinct (map fst (AList.update k (length h) (gs_instance_info s)))"
    using wf by (simp add: registry_wf_def distinct_update)
  have "a1 < length (h @ [x]) \<and> instance_id ((h @ [x]) ! a1) = k1"
    if "(k1, a1) \<in> set (AList.update k (length h) (gs_instance_info s))" for k1 a1
  proof -
    from set_update_subset [OF that] show ?thesis
    proof
      assume "(k1, a1) = (k, length h)"
      with x show ?thesis by simp
    next
      assume "(k1, a1) \<in> set (gs_instance_info s)"
      with wf have "a1 < length h" "instance_id (h ! a1) = k1"
        by (auto simp: registry_wf_def list_all_iff)
      then show ?thesis by (simp add: nth_append)
    qed
  qed
  with d show ?thesis by (auto simp: registry_wf_def list_all_iff)
qed

lemma wf_update_instance_infos:
  "registry_wf h s \<Longrightarrow>
   registry_wf (fst (gs_update_instance_infos h s batch)) (snd (gs_update_instance_infos h s batch))"
proof (induction batch arbitrary: h s)
  case Nil
  then show ?case by simp
next
  case (Cons info rest)
  let ?x = "ingest (gs_instance_load_calculator s) (gs_instance_info s) info"
  let ?s = "if has_key (gs_instance_info s) (instance_id info)
        then s \<lparr> gs_instance_info := AList.update (instance_id info) (length h) (gs_instance_info s) \<rparr>
        else s"
  have "instance_id ?x = instance_id info" by (simp add: ingest_def)
  from wf_bind [OF Cons.prems this] wf_heap_extends [OF Cons.prems, of "[?x]"]
  have "registry_wf (h @ [?x]) ?s" by simp
  from Cons.IH [OF this] show ?case by (simp only: update_step)
qed

lemma wf_scale_up_loop:
  "registry_wf h s \<Longrightarrow>
   registry_wf (fst (snd (scale_up_loop ext h s ids))) (snd (snd (scale_up_loop ext h s ids)))"
proof (induction ids arbitrary: h s)
  case Nil
  then show ?case by simp
next
  case (Cons k ids)
  show ?case
  proof (cases "has_key (gs_instance_info s) k")
    case True
    with Cons show ?thesis by simp
  next
    case False
    let ?x = "(ss_get_empty_instance_info ext (gs_scale_scheduler s)) \<lparr> instance_id := k \<rparr>"
    let ?s1 = "s \<lparr> gs_instance_info := AList.update k (length h) (gs_instance_info s) \<rparr>"
    obtain e s2 where r: "gs_add_instance ext k ?s1 = (e, s2)" by (cases "gs_add_instance ext k ?s1")
    have "instance_id ?x = k" by simp
    from wf_bind [OF Cons.prems this] have w1: "registry_wf (h @ [?x]) ?s1" .
    from regview_add_instance [of ext k ?s1] r
    have "gs_instance_info s2 = gs_instance_info ?s1" by (simp add: regview_def)
    from wf_same_registry [OF this] w1 have w2: "registry_wf (h @ [?x]) s2" by simp
    show ?thesis
    proof (cases e)
      case None
      with False r Cons.IH [OF w2] show ?thesis by (simp add: alloc_def)
    next
      case (Some err)
      with False r w2 show ?thesis by (simp add: alloc_def)
    qed
  qed
qed

lemma wf_scale_down_loop:
  "registry_wf h s \<Longrightarrow> registry_wf h (snd (scale_down_loop ext s ids))"
proof (induction ids arbitrary: s)
  case Nil
  then show ?case by simp
next
  case (Cons k ids)
  show ?case
  proof (cases "has_key (gs_instance_info s) k")
    case False
    with Cons show ?thesis by simp
  next
    case True
    let ?s1 = "s \<lparr> gs_instance_info := AList.delete k (gs_instance_info s) \<rparr>"
    obtain e s2 where r: "gs_remove_instance ext k ?s1 = (e, s2)"
      by (cases "gs_remove_instance ext k ?s1")
    have d: "distinct (map fst (AList.delete k (gs_instance_info s)))"
      using Cons.prems by (simp add: registry_wf_def distinct_delete)
    have sub: "set (AList.delete k (gs_instance_info s)) \<subseteq> set (gs_instance_info s)"
      by (auto simp: AList.delete_eq)
    have w1: "registry_wf h ?s1"
      using Cons.prems d sub by (auto simp: registry_wf_def list_all_iff)
    from regview_remove_instance [of ext k ?s1] r
    have "gs_instance_info s2 = gs_instance_info ?s1"
      by (simp add: regview_def split: if_splits)
    from wf_same_registry [OF this] w1 have w2: "registry_wf h s2" by simp
    show ?thesis
    proof (cases e)
      case None
      with True r Cons.IH [OF w2] show ?thesis by simp
    next
      case (Some err)
      with True r w2 show ?thesis by simp
    qed
  qed
qed

lemma reachable_registry_wf: "reachable ext cfg h s \<Longrightarrow> registry_wf h s"
proof (induction rule: reachable.induct)
  case (constructed s h)
  then show ?case
    by (auto simp: GlobalScheduler_init_def Let_def registry_wf_def split: sum.splits)
next
  case (after_update_instance_infos h s batch h1 s1)
  with wf_update_instance_infos [of h s batch] show ?case by simp
next
  case (after_dispatch h s r s1)
  from regview_dispatch [of ext h s] after_dispatch(2)
  have "gs_instance_info s1 = gs_instance_info s" by (simp add: regview_def)
  from wf_same_registry [OF this] after_dispatch.IH show ?case by simp
next
  case (after_check_migrate h s pairs h1 s1)
  from gs_check_migrate_char [OF after_check_migrate.IH] after_check_migrate(2)
  obtain ext1 m where "h1 = h @ ext1" "s1 = s \<lparr> gs_migrate_scheduler := m \<rparr>" by auto
  with wf_heap_extends [OF after_check_migrate.IH, of ext1] show ?case
    by (simp add: registry_wf_def)
next
  case (after_check_scale h s n s1)
  from regview_check_scale [of ext h s] after_check_scale(2)
  have "gs_instance_info s1 = gs_instance_info s" by (simp add: regview_def)
  from wf_same_registry [OF this] after_check_scale.IH show ?case by simp
next
  case (after_scale_up h s arg e h1 s1)
  with wf_scale_up_loop [of h s ext "instance_ids_of arg"] show ?case
    by (simp add: gs_scale_up_def)
next
  case (after_scale_down h s arg e s1)
  with wf_scale_down_loop [of h s ext "instance_ids_of arg"] show ?case
    by (simp add: gs_scale_down_def)
qed




text \<open>
  C8. On a well-formed registry, under the balanced and the prefill_constrained policy,
  the destination of every pair returned by \<open>check_migrate\<close> is a registry entry with
  \<open>num_killed_request = 0\<close> and \<open>instance_load_migrate\<close> strictly below
  \<open>migrate_out_load_threshold\<close>.
\<close>

theorem destinations_are_idle_and_below_threshold:
  assumes "registry_wf h s" and "cmp_class (migrate_policy s) \<noteq> PrefillRelaxed"
  shows "\<exists>pairs. fst (gs_check_migrate h s) = Inr pairs \<and>
           (\<forall>(src, dst)\<in>set pairs.
              \<exists>d. map_of (gs_instance_info s) dst = Some d \<and>
                  num_killed_request (h ! d) = 0 \<and>
                  instance_load_migrate (h ! d) < cmp_migrate_out_load_threshold (migrate_policy s))"
proof -
  from gs_check_migrate_char [OF assms(1)] obtain pairs ext m where
    run: "gs_check_migrate h s = (Inr pairs, h @ ext, s \<lparr> gs_migrate_scheduler := m \<rparr>)"
    and props: "\<forall>(src, dst)\<in>set pairs.
              pair_origin h s src dst"
    by blast
  from props have "\<forall>(src, dst)\<in>set pairs.
              \<exists>d. map_of (gs_instance_info s) dst = Some d \<and>
                  num_killed_request (h ! d) = 0 \<and>
                  instance_load_migrate (h ! d) < cmp_migrate_out_load_threshold (migrate_policy s)"
    by (fastforce simp: pair_origin_def is_migrate_in_def)
  with run show ?thesis by simp
qed

theorem destinations_are_idle_and_below_threshold_witness:
  "registry_wf hot_cold balanced_pair
   \<and> cmp_class (migrate_policy balanced_pair) \<noteq> PrefillRelaxed
   \<and> fst (gs_check_migrate hot_cold balanced_pair) = Inr [(''hot'', ''cold'')]
   \<and> map_of (gs_instance_info balanced_pair) ''cold'' = Some 1
   \<and> num_killed_request (hot_cold ! 1) = 0
   \<and> instance_load_migrate (hot_cold ! 1) < cmp_migrate_out_load_threshold (migrate_policy balanced_pair)"
  using destinations_are_idle_and_below_threshold [of hot_cold balanced_pair]
  by (simp add: run_defs fleet_defs)

text \<open>
  C2. On a well-formed registry, under the balanced policy, every pair returned by
  \<open>check_migrate\<close> has a source entry and a destination entry such that either the
  projected load of the destination is at most \<open>migrate_out_load_threshold\<close> and the
  projected gap is strictly positive and strictly below the gap before the migration, or
  the \<open>instance_load_migrate\<close> of the destination is \<open>-inf\<close>. The two gaps are
  the float differences that the code computes, and neither is \<open>nan\<close>.
\<close>

theorem balanced_pairs_pass_the_acceptance_test:
  assumes "registry_wf h s" and "cmp_class (migrate_policy s) = Balanced"
  shows "\<exists>pairs. fst (gs_check_migrate h s) = Inr pairs \<and>
           (\<forall>(src, dst)\<in>set pairs.
              \<exists>r l. map_of (gs_instance_info s) src = Some r \<and>
                    map_of (gs_instance_info s) dst = Some l \<and>
                    ((projected_load (cmp_instance_load_calculator (migrate_policy s)) (h ! l) True
                        \<le> cmp_migrate_out_load_threshold (migrate_policy s) \<and>
                      (\<exists>gap_after gap_before.
                         load_sub
                           (projected_load (cmp_instance_load_calculator (migrate_policy s)) (h ! r) False)
                           (projected_load (cmp_instance_load_calculator (migrate_policy s)) (h ! l) True)
                           = Some gap_after \<and>
                         load_sub (instance_load_migrate (h ! r)) (instance_load_migrate (h ! l))
                           = Some gap_before \<and>
                         Fin 0 < gap_after \<and> gap_after < gap_before))
                     \<or> instance_load_migrate (h ! l) = NegInf))"
proof -
  from gs_check_migrate_char [OF assms(1)] obtain pairs ext m where
    run: "gs_check_migrate h s = (Inr pairs, h @ ext, s \<lparr> gs_migrate_scheduler := m \<rparr>)"
    and props: "\<forall>(src, dst)\<in>set pairs.
              pair_origin h s src dst"
    by blast
  have "\<forall>(src, dst)\<in>set pairs.
              \<exists>r l. map_of (gs_instance_info s) src = Some r \<and>
                    map_of (gs_instance_info s) dst = Some l \<and>
                    ((projected_load (cmp_instance_load_calculator (migrate_policy s)) (h ! l) True
                        \<le> cmp_migrate_out_load_threshold (migrate_policy s) \<and>
                      (\<exists>gap_after gap_before.
                         load_sub
                           (projected_load (cmp_instance_load_calculator (migrate_policy s)) (h ! r) False)
                           (projected_load (cmp_instance_load_calculator (migrate_policy s)) (h ! l) True)
                           = Some gap_after \<and>
                         load_sub (instance_load_migrate (h ! r)) (instance_load_migrate (h ! l))
                           = Some gap_before \<and>
                         Fin 0 < gap_after \<and> gap_after < gap_before))
                     \<or> instance_load_migrate (h ! l) = NegInf)"
  proof (clarify)
    fix src dst assume "(src, dst) \<in> set pairs"
    with props assms(2) obtain r l where
      rl: "map_of (gs_instance_info s) src = Some r" "map_of (gs_instance_info s) dst = Some l"
      and acc: "balanced_accepts (migrate_policy s) (h ! r) (h ! l)"
      by (fastforce simp: pair_origin_def)
    from acc have
      "(projected_load (cmp_instance_load_calculator (migrate_policy s)) (h ! l) True
                        \<le> cmp_migrate_out_load_threshold (migrate_policy s) \<and>
                      (\<exists>gap_after gap_before.
                         load_sub
                           (projected_load (cmp_instance_load_calculator (migrate_policy s)) (h ! r) False)
                           (projected_load (cmp_instance_load_calculator (migrate_policy s)) (h ! l) True)
                           = Some gap_after \<and>
                         load_sub (instance_load_migrate (h ! r)) (instance_load_migrate (h ! l))
                           = Some gap_before \<and>
                         Fin 0 < gap_after \<and> gap_after < gap_before))
                     \<or> instance_load_migrate (h ! l) = NegInf"
      by (auto simp: balanced_accepts_def Let_def not_less dest: chained_less_gaps)
    with rl show "\<exists>r l. map_of (gs_instance_info s) src = Some r \<and>
                    map_of (gs_instance_info s) dst = Some l \<and>
                    ((projected_load (cmp_instance_load_calculator (migrate_policy s)) (h ! l) True
                        \<le> cmp_migrate_out_load_threshold (migrate_policy s) \<and>
                      (\<exists>gap_after gap_before.
                         load_sub
                           (projected_load (cmp_instance_load_calculator (migrate_policy s)) (h ! r) False)
                           (projected_load (cmp_instance_load_calculator (migrate_policy s)) (h ! l) True)
                           = Some gap_after \<and>
                         load_sub (instance_load_migrate (h ! r)) (instance_load_migrate (h ! l))
                           = Some gap_before \<and>
                         Fin 0 < gap_after \<and> gap_after < gap_before))
                     \<or> instance_load_migrate (h ! l) = NegInf)"
      by blast
  qed
  with run show ?thesis by simp
qed

theorem balanced_pairs_pass_the_acceptance_test_witness:
  "registry_wf hot_cold balanced_pair
   \<and> cmp_class (migrate_policy balanced_pair) = Balanced
   \<and> fst (gs_check_migrate hot_cold balanced_pair) = Inr [(''hot'', ''cold'')]
   \<and> map_of (gs_instance_info balanced_pair) ''hot'' = Some 0
   \<and> map_of (gs_instance_info balanced_pair) ''cold'' = Some 1
   \<and> projected_load calc_off (hot_cold ! 1) True = Fin 2
   \<and> projected_load calc_off (hot_cold ! 0) False = Fin 4
   \<and> Fin 2 \<le> cmp_migrate_out_load_threshold (migrate_policy balanced_pair)
   \<and> load_sub (Fin 4) (Fin 2) = Some (Fin 2)
   \<and> load_sub (instance_load_migrate (hot_cold ! 0)) (instance_load_migrate (hot_cold ! 1))
        = Some (Fin 4)
   \<and> Fin 0 < Fin 2 \<and> Fin 2 < Fin 4"
  using balanced_pairs_pass_the_acceptance_test [of hot_cold balanced_pair]
  by (simp add: run_defs fleet_defs)

text \<open>
  The differences are rounded. With the projected loads \<open>1\<close> and \<open>2^-60\<close> and the
  stored loads \<open>1\<close> and \<open>0\<close>, the exact gap after the migration, \<open>1 - 2^-60\<close>, is
  below the gap before it, \<open>1\<close>; as floats both are \<open>1.0\<close>, the chained comparison
  fails, and no pair is returned.
\<close>

lemma rounding_closes_the_gap:
  "registry_wf near_tie balanced_near_tie
   \<and> projected_load calc_fine (near_tie ! 0) False = Fin 1
   \<and> projected_load calc_fine (near_tie ! 1) True = Fin (1 / 2 ^ 60)
   \<and> instance_load_migrate (near_tie ! 0) = Fin 1
   \<and> instance_load_migrate (near_tie ! 1) = Fin 0
   \<and> (0::real) < 1 - 1 / 2 ^ 60 \<and> (1::real) - 1 / 2 ^ 60 < 1 - 0
   \<and> load_sub (Fin 1) (Fin (1 / 2 ^ 60)) = Some (Fin 1)
   \<and> load_sub (Fin 1) (Fin 0) = Some (Fin 1)
   \<and> fst (gs_check_migrate near_tie balanced_near_tie) = Inr []"
  using float_round_below_1 by (simp add: run_defs fleet_defs)

text \<open>
  C10. On a well-formed registry, under the balanced policy, an instance whose projected
  load as a destination exceeds \<open>migrate_out_load_threshold\<close> is the destination of no
  returned pair, whatever its \<open>instance_load_migrate\<close>, the sentinel \<open>-inf\<close>
  included.
\<close>

theorem threshold_gate_applies_to_fresh_destinations:
  assumes "registry_wf h s" and "cmp_class (migrate_policy s) = Balanced"
    and "map_of (gs_instance_info s) d = Some a"
    and "cmp_migrate_out_load_threshold (migrate_policy s)
           < projected_load (cmp_instance_load_calculator (migrate_policy s)) (h ! a) True"
  shows "\<exists>pairs. fst (gs_check_migrate h s) = Inr pairs \<and> d \<notin> snd ` set pairs"
proof -
  from gs_check_migrate_char [OF assms(1)] obtain pairs ext m where
    run: "gs_check_migrate h s = (Inr pairs, h @ ext, s \<lparr> gs_migrate_scheduler := m \<rparr>)"
    and props: "\<forall>(src, dst)\<in>set pairs.
              pair_origin h s src dst"
    by blast
  have "d \<notin> snd ` set pairs"
  proof
    assume "d \<in> snd ` set pairs"
    then obtain src where "(src, d) \<in> set pairs" by auto
    with props assms(2,3) obtain r where "balanced_accepts (migrate_policy s) (h ! r) (h ! a)"
      by (fastforce simp: pair_origin_def)
    with assms(4) show False by (simp add: balanced_accepts_def Let_def)
  qed
  with run show ?thesis by simp
qed

theorem threshold_gate_applies_to_fresh_destinations_witness:
  "registry_wf hot_new balanced_fresh
   \<and> cmp_class (migrate_policy balanced_fresh) = Balanced
   \<and> map_of (gs_instance_info balanced_fresh) ''new'' = Some 1
   \<and> instance_load_migrate (hot_new ! 1) = NegInf
   \<and> cmp_migrate_out_load_threshold (migrate_policy balanced_fresh)
        < projected_load (cmp_instance_load_calculator (migrate_policy balanced_fresh)) (hot_new ! 1) True
   \<and> fst (gs_check_migrate hot_new balanced_fresh) = Inr []"
  using threshold_gate_applies_to_fresh_destinations [of hot_new balanced_fresh "''new''" 1]
  by (simp add: run_defs fleet_defs)

text \<open>
  C9. On a well-formed registry, \<open>check_migrate\<close> returns with \<open>instance_info\<close>,
  \<open>instance_id_set\<close> and \<open>num_instance\<close> unchanged; every object that was in the
  store before the call is unchanged, the objects of the registry among them. The store
  only grows, by the copies that the projections of the balanced policy make.
\<close>

theorem check_migrate_leaves_the_registry_unchanged:
  assumes "registry_wf h s"
  shows "\<exists>pairs h1 s1. gs_check_migrate h s = (pairs, h1, s1) \<and>
           gs_instance_info s1 = gs_instance_info s \<and>
           gs_instance_id_set s1 = gs_instance_id_set s \<and>
           gs_num_instance s1 = gs_num_instance s \<and>
           take (length h) h1 = h \<and>
           list_all (\<lambda>(k, a). a < length h1 \<and> h1 ! a = h ! a) (gs_instance_info s)"
proof -
  from gs_check_migrate_char [OF assms(1)] obtain pairs ext m where
    run: "gs_check_migrate h s = (Inr pairs, h @ ext, s \<lparr> gs_migrate_scheduler := m \<rparr>)"
    by blast
  have "list_all (\<lambda>(k, a). a < length (h @ ext) \<and> (h @ ext) ! a = h ! a) (gs_instance_info s)"
    using wf_addr(1) [OF assms] by (auto simp: list_all_iff nth_append)
  with run show ?thesis by simp
qed

theorem check_migrate_leaves_the_registry_unchanged_witness:
  "registry_wf hot_cold balanced_pair
   \<and> gs_instance_info (snd (snd (gs_check_migrate hot_cold balanced_pair))) = [(''hot'', 0), (''cold'', 1)]
   \<and> gs_instance_id_set (snd (snd (gs_check_migrate hot_cold balanced_pair))) = {''hot'', ''cold''}
   \<and> gs_num_instance (snd (snd (gs_check_migrate hot_cold balanced_pair))) = 2
   \<and> length (fst (snd (gs_check_migrate hot_cold balanced_pair))) = 4
   \<and> take 2 (fst (snd (gs_check_migrate hot_cold balanced_pair))) = hot_cold"
  using check_migrate_leaves_the_registry_unchanged [of hot_cold balanced_pair]
  by (simp add: run_defs fleet_defs)

end
